theory Spec2Isabelle
  imports Complex_Main "HOL-Library.Multiset"
begin

section \<open>Strings\<close>

text \<open>
  Go strings are byte sequences; they are modelled as \<open>string\<close> (a list of 8-bit
  characters). The three functions of package \<open>strings\<close> that the downloader uses are
  written out as the Go library defines them.
\<close>

definition HasPrefix :: "string \<Rightarrow> string \<Rightarrow> bool" where
  "HasPrefix s p = (length p \<le> length s \<and> take (length p) s = p)"

definition TrimPrefix :: "string \<Rightarrow> string \<Rightarrow> string" where
  "TrimPrefix s p = (if HasPrefix s p then drop (length p) s else s)"

definition HasSuffix :: "string \<Rightarrow> string \<Rightarrow> bool" where
  "HasSuffix s x = (length x \<le> length s \<and> drop (length s - length x) s = x)"

definition TrimSuffix :: "string \<Rightarrow> string \<Rightarrow> string" where
  "TrimSuffix s x = (if HasSuffix s x then take (length s - length x) s else s)"

section \<open>The URL normalizer: \<open>extractGitHubURL\<close> (downloader.go)\<close>

definition prefixes :: "string list" where
  "prefixes =
    [''https://ghproxy.cc/'',
     ''https://ghproxy.cn/'',
     ''https://gh.b52m.cn/'',
     ''https://github.moeyy.xyz/'',
     ''https://mirror.ghproxy.com/'']"

text \<open>The \<open>for _, prefix := range prefixes\<close> loop with its early return.\<close>

fun extractLoop :: "string list \<Rightarrow> string \<Rightarrow> string" where
  "extractLoop [] proxyURL = proxyURL"
| "extractLoop (prefix # rest) proxyURL =
     (if HasPrefix proxyURL prefix then TrimPrefix proxyURL prefix
      else extractLoop rest proxyURL)"

definition extractGitHubURL :: "string \<Rightarrow> string" where
  "extractGitHubURL proxyURL = extractLoop prefixes proxyURL"

section \<open>Data model\<close>

text \<open>
  The structs of the proxy manager and of the downloader. \<open>[]byte\<close> is a byte string.
  Go's \<open>int\<close> fields are read from JSON and only copied or compared, never added to, so
  they are integers without wrap-around; \<open>maxRetry\<close> and the counter \<open>tried\<close> compared
  with it start at 10 and 0 and only count up, so they are natural numbers. \<open>Speed\<close> is
  a \<open>float64\<close> read from JSON, hence a finite number: it is modelled as a real, and the
  order on finite floats is the order on the reals. \<open>CacheTime\<close> is a \<open>time.Time\<close>, kept
  as nanoseconds since the epoch.
\<close>

type_synonym bytes = string

record GitHubProxyData =
  URL :: string
  Server :: string
  IP :: string
  Location :: string
  Latency :: int
  Speed :: real

record GitHubProxyResponse =
  Code :: int
  Message :: string
  Data :: "GitHubProxyData list"
  Total :: int
  UpdateTime :: string

record ProxyCache =
  CacheData :: "GitHubProxyData list"
  CacheTime :: int
  CacheUpdateTime :: string
  CacheTotal :: int

record UpdateInfo =
  Changelog :: string
  Version :: string
  VersionCode :: int
  ZipURL :: string

record ModuleDownloader =
  cacheDir :: string
  maxRetry :: nat

text \<open>
  Every \<open>error\<close> value the two files build, one constructor per \<open>fmt.Errorf\<close> or
  library failure; a wrapped error (\<open>%v\<close>) keeps the inner one.
\<close>

datatype error =
    TransportError
  | StatusError int
  | BodyReadError
  | CreateFileError
  | NotExist
  | JSONError
  | UpdateJSONError error
  | NoZipUrl
  | ProxyListError error
  | AllAttemptsFailed
  | AllProxyAttemptsFailed
  | MkdirDownloadError
  | ApiRequestError error
  | ApiStatusError int
  | ApiReadError
  | ApiJSONError
  | ApiError string
  | MkdirCacheError
  | MarshalError
  | WriteCacheError
  | ReadCacheError error
  | RemoveError
  | NoProxies

section \<open>The world outside the program\<close>

text \<open>
  What a GET request meets: no response at all (connection failure, deadline expired,
  malformed request), or a response with a status code, the bytes of the body that
  arrived, and whether the body arrived completely.
\<close>

datatype http_result = Failed | Response int bytes bool

text \<open>
  Everything the program cannot decide is an oracle of the environment. The oracles of
  input and output take the number of actions performed so far, so that the same URL may
  fail now and answer later. \<open>stat_fails\<close> says that \<open>os.Stat\<close> of the cache file fails
  with an error other than "does not exist" (permission denied on a directory of the
  path, a component of the path that is not a directory). The JSON codecs of
  \<open>encoding/json\<close>, \<open>filepath.Join\<close> and the \<open>%d\<close> verb are library functions and are
  parameters too, and so is \<open>sort.Slice\<close> with the comparison by speed, \<open>sortSlice\<close>:
  the library does not keep the order of equal elements and does not say which order
  they get, so the sorted list is the library's answer and not a function written here.
\<close>

record env =
  http :: "nat \<Rightarrow> string \<Rightarrow> http_result"
  create_fails :: "nat \<Rightarrow> string \<Rightarrow> bool"
  mkdir_download_fails :: "nat \<Rightarrow> string \<Rightarrow> bool"
  mkdir_cache_fails :: "nat \<Rightarrow> bool"
  write_fails :: "nat \<Rightarrow> bool"
  remove_fails :: "nat \<Rightarrow> bool"
  stat_fails :: "nat \<Rightarrow> bool"
  unmarshalCache :: "bytes \<Rightarrow> ProxyCache option"
  unmarshalResponse :: "bytes \<Rightarrow> GitHubProxyResponse option"
  unmarshalUpdate :: "bytes \<Rightarrow> UpdateInfo option"
  marshalCache :: "ProxyCache \<Rightarrow> bytes option"
  joinPath :: "string \<Rightarrow> string \<Rightarrow> string"
  showInt :: "int \<Rightarrow> string"
  sortSlice :: "GitHubProxyData list \<Rightarrow> GitHubProxyData list"

text \<open>
  The actions, in the order they happen. A download attempt is logged with its outcome,
  as the program itself prints it: the error, or the body that was received (\<open>Fetch\<close>)
  or written to the file (\<open>FetchFile\<close>).
\<close>

datatype event =
    Fetch string "error + bytes"
  | FetchFile string string "error + bytes"
  | ApiCall
  | MkdirCache
  | MkdirDownload
  | WriteCache
  | RemoveCache

text \<open>
  The state: the log of actions, the content of the cache file \<open>gpm.cacheFile\<close> (\<open>None\<close>
  when the file does not exist), the downloaded files by path, and the clock in
  nanoseconds. The cache file (\<open>.json\<close>) and the downloaded archives (\<open>.zip\<close>) are
  different files, so they are different fields. Three simplifications: a file that
  exists can be read; a write that fails leaves the file as it was; the operations take
  no time, so the clock is read and never advanced.
\<close>

record world =
  trace :: "event list"
  cache :: "bytes option"
  files :: "string \<Rightarrow> bytes option"
  now :: int

definition tick :: "world \<Rightarrow> nat" where
  "tick w = length (trace w)"

definition emit :: "event \<Rightarrow> world \<Rightarrow> world" where
  "emit e w = w\<lparr>trace := trace w @ [e]\<rparr>"

section \<open>Time\<close>

text \<open>
  \<open>time.Duration\<close> is a signed 64-bit count of nanoseconds, and \<open>Time.Sub\<close> saturates at
  its bounds instead of wrapping.
\<close>

definition maxDuration :: int where
  "maxDuration = 2 ^ 63 - 1"

definition minDuration :: int where
  "minDuration = - (2 ^ 63)"

definition Sub :: "int \<Rightarrow> int \<Rightarrow> int" where
  "Sub t u = (let d = t - u in
     if d > maxDuration then maxDuration else if d < minDuration then minDuration else d)"

definition Since :: "world \<Rightarrow> int \<Rightarrow> int" where
  "Since w t = Sub (now w) t"

definition Hour :: int where
  "Hour = 3600000000000"

definition cacheValidDuration :: int where
  "cacheValidDuration = 10 * Hour"

section \<open>The proxy manager (part_000)\<close>

definition githubProxyAPI :: string where
  "githubProxyAPI = ''https://api.akams.cn/github''"

text \<open>
  \<open>fileExists\<close> is \<open>!os.IsNotExist(err)\<close> after \<open>os.Stat\<close>: it is true when the file is there,
  and also when \<open>os.Stat\<close> fails with any error other than "does not exist", whether the
  file is there or not. \<open>readCacheFile\<close> fails when the file is absent or does not
  decode.
\<close>

definition fileExists :: "env \<Rightarrow> world \<Rightarrow> bool" where
  "fileExists env w = (cache w \<noteq> None \<or> stat_fails env (tick w))"

definition readCacheFile :: "env \<Rightarrow> world \<Rightarrow> error + ProxyCache" where
  "readCacheFile env w =
     (case cache w of
        None \<Rightarrow> Inl NotExist
      | Some data \<Rightarrow>
          (case unmarshalCache env data of
             None \<Rightarrow> Inl JSONError
           | Some c \<Rightarrow> Inr c))"

definition isCacheValid :: "env \<Rightarrow> world \<Rightarrow> bool" where
  "isCacheValid env w =
     (if \<not> fileExists env w then False
      else case readCacheFile env w of
             Inl err \<Rightarrow> False
           | Inr c \<Rightarrow> if Since w (CacheTime c) > cacheValidDuration then False else True)"

definition loadFromCache :: "env \<Rightarrow> world \<Rightarrow> error + GitHubProxyData list" where
  "loadFromCache env w =
     (case readCacheFile env w of
        Inl err \<Rightarrow> Inl (ReadCacheError err)
      | Inr c \<Rightarrow> Inr (CacheData c))"

definition saveToCache :: "env \<Rightarrow> GitHubProxyResponse \<Rightarrow> world \<Rightarrow> error option \<times> world" where
  "saveToCache env apiResponse w =
     (if mkdir_cache_fails env (tick w) then (Some MkdirCacheError, emit MkdirCache w)
      else
        let w1 = emit MkdirCache w;
            c = \<lparr>CacheData = Data apiResponse, CacheTime = now w1,
                 CacheUpdateTime = UpdateTime apiResponse, CacheTotal = Total apiResponse\<rparr>
        in case marshalCache env c of
             None \<Rightarrow> (Some MarshalError, w1)
           | Some data \<Rightarrow>
               if write_fails env (tick w1) then (Some WriteCacheError, emit WriteCache w1)
               else (None, emit WriteCache (w1\<lparr>cache := Some data\<rparr>)))"

definition fetchFromAPI :: "env \<Rightarrow> world \<Rightarrow> (error + GitHubProxyData list) \<times> world" where
  "fetchFromAPI env w =
     (let w1 = emit ApiCall w in
      case http env (tick w) githubProxyAPI of
        Failed \<Rightarrow> (Inl (ApiRequestError TransportError), w1)
      | Response st body whole \<Rightarrow>
          (if st \<noteq> 200 then (Inl (ApiStatusError st), w1)
           else if \<not> whole then (Inl ApiReadError, w1)
           else (case unmarshalResponse env body of
                   None \<Rightarrow> (Inl ApiJSONError, w1)
                 | Some apiResponse \<Rightarrow>
                     (if Code apiResponse \<noteq> 200
                      then (Inl (ApiError (Message apiResponse)), w1)
                      else (case saveToCache env apiResponse w1 of
                              (Some err, w2) \<Rightarrow> (Inr (Data apiResponse), w2)
                            | (None, w2) \<Rightarrow> (Inr (Data apiResponse), w2))))))"

definition GetProxies :: "env \<Rightarrow> world \<Rightarrow> (error + GitHubProxyData list) \<times> world" where
  "GetProxies env w =
     (if isCacheValid env w then (loadFromCache env w, w)
      else fetchFromAPI env w)"

text \<open>
  \<open>GetBestProxy\<close>. \<open>bestProxy\<close> is a pointer into the slice, \<open>nil\<close> at the start: it
  is the index of the element it points to, or \<open>None\<close>. The body of the loop takes the
  scoring function as an argument: \<open>score\<close> is the formula of the source over the reals,
  and the \<open>float64\<close> evaluation of the same formula is another such function (finite
  floats are reals, compared as reals), so what holds for every scoring function holds for
  the compiled code. The two functions differ by the rounding of each operation: where
  two exact scores are equal or nearly equal, the compiled code may order them the other
  way, so a statement about \<open>score\<close> itself is a statement about the compiled code only
  where the scores compared are far enough apart. \<open>best\<close> is \<open>GetBestProxy\<close> from the emptiness check on, with the
  pointer it returns read as the element, or \<open>None\<close> for \<open>nil\<close>.
\<close>

definition score :: "GitHubProxyData \<Rightarrow> real" where
  "score proxy = Speed proxy * 0.6 + (1000.0 - real_of_int (Latency proxy)) / 1000.0 * 0.4"

fun bestLoop ::
  "(GitHubProxyData \<Rightarrow> real) \<Rightarrow> GitHubProxyData list \<Rightarrow> nat \<Rightarrow> nat option \<Rightarrow> real
    \<Rightarrow> nat option" where
  "bestLoop sc [] i bestProxy bestScore = bestProxy"
| "bestLoop sc (proxy # rest) i bestProxy bestScore =
     (if bestScore < 0 \<or> sc proxy > bestScore
      then bestLoop sc rest (i + 1) (Some i) (sc proxy)
      else bestLoop sc rest (i + 1) bestProxy bestScore)"

definition best ::
  "(GitHubProxyData \<Rightarrow> real) \<Rightarrow> GitHubProxyData list \<Rightarrow> error + GitHubProxyData option" where
  "best sc proxies =
     (if length proxies = 0 then Inl NoProxies
      else Inr (map_option (\<lambda>i. proxies ! i) (bestLoop sc proxies 0 None (- 1))))"

definition GetBestProxy :: "env \<Rightarrow> world \<Rightarrow> (error + GitHubProxyData option) \<times> world" where
  "GetBestProxy env w =
     (case GetProxies env w of
        (Inl err, w1) \<Rightarrow> (Inl err, w1)
      | (Inr proxies, w1) \<Rightarrow> (best score proxies, w1))"

text \<open>
  \<open>ClearCache\<close>. \<open>os.Remove\<close> of a file that is not there fails; of a file that is there
  it fails when the environment says so.
\<close>

definition ClearCache :: "env \<Rightarrow> world \<Rightarrow> error option \<times> world" where
  "ClearCache env w =
     (if \<not> fileExists env w then (None, w)
      else if cache w = None \<or> remove_fails env (tick w)
           then (Some RemoveError, emit RemoveCache w)
      else (None, emit RemoveCache (w\<lparr>cache := None\<rparr>)))"

section \<open>Counting the network calls of a run\<close>

fun isNetwork :: "event \<Rightarrow> bool" where
  "isNetwork (Fetch url r) = True"
| "isNetwork (FetchFile url path r) = True"
| "isNetwork ApiCall = True"
| "isNetwork e = False"

definition netCalls :: "world \<Rightarrow> nat" where
  "netCalls w = length (filter isNetwork (trace w))"

definition apiCalls :: "world \<Rightarrow> nat" where
  "apiCalls w = length (filter (\<lambda>e. e = ApiCall) (trace w))"

section \<open>The downloader (downloader.go)\<close>

definition NewModuleDownloader :: "string \<Rightarrow> ModuleDownloader" where
  "NewModuleDownloader dir = \<lparr>cacheDir = dir, maxRetry = 10\<rparr>"

text \<open>
  \<open>strings.ReplaceAll\<close> and \<open>strings.Split\<close> for a separator of one byte, as
  \<open>normalizeRepoName\<close> and \<open>downloadModule\<close> call them.
\<close>

definition ReplaceAll :: "string \<Rightarrow> char \<Rightarrow> char \<Rightarrow> string" where
  "ReplaceAll s old new = map (\<lambda>c. if c = old then new else c) s"

fun Split :: "string \<Rightarrow> char \<Rightarrow> string list" where
  "Split [] sep = [[]]"
| "Split (c # s) sep =
     (if c = sep then [] # Split s sep
      else case Split s sep of
             [] \<Rightarrow> [[c]]
           | part # parts \<Rightarrow> (c # part) # parts)"

definition normalizeRepoName :: "string \<Rightarrow> string" where
  "normalizeRepoName repo =
     (let repo' = ReplaceAll repo (CHR 0x5C) (CHR ''/'');
          parts = Split repo' (CHR ''/'')
      in if length parts \<noteq> 2 then [] else parts ! 0 @ ''/'' @ parts ! 1)"

definition buildUpdateURL :: "string \<Rightarrow> string" where
  "buildUpdateURL repo = ''https://github.com/'' @ repo @ ''/releases/latest/download/update.json''"

text \<open>
  One request, without retry. The deadline of the request is one of the ways in which the
  environment makes it fail, so the timeout is not an argument of the model.
\<close>

definition httpOutcome :: "http_result \<Rightarrow> error + bytes" where
  "httpOutcome r =
     (case r of
        Failed \<Rightarrow> Inl TransportError
      | Response st body whole \<Rightarrow>
          if st \<noteq> 200 then Inl (StatusError st)
          else if whole then Inr body else Inl BodyReadError)"

definition downloadWithTimeout :: "env \<Rightarrow> string \<Rightarrow> world \<Rightarrow> (error + bytes) \<times> world" where
  "downloadWithTimeout env url w =
     (let r = httpOutcome (http env (tick w) url) in (r, emit (Fetch url r) w))"

text \<open>
  \<open>downloadFile\<close> creates the local file only after a response with status 200, and
  copies what arrives: when the copy fails, the part received stays in the file.
\<close>

definition downloadFile :: "env \<Rightarrow> string \<Rightarrow> string \<Rightarrow> world \<Rightarrow> (error + bytes) \<times> world" where
  "downloadFile env url localPath w =
     (case http env (tick w) url of
        Failed \<Rightarrow> (Inl TransportError, emit (FetchFile url localPath (Inl TransportError)) w)
      | Response st body whole \<Rightarrow>
          if st \<noteq> 200
          then (Inl (StatusError st), emit (FetchFile url localPath (Inl (StatusError st))) w)
          else if create_fails env (tick w) localPath
          then (Inl CreateFileError, emit (FetchFile url localPath (Inl CreateFileError)) w)
          else
            let r = (if whole then Inr body else Inl BodyReadError)
            in (r, emit (FetchFile url localPath r) (w\<lparr>files := (files w)(localPath \<mapsto> body)\<rparr>)))"

definition parseUpdateJSON :: "env \<Rightarrow> bytes \<Rightarrow> error + UpdateInfo" where
  "parseUpdateJSON env data =
     (case unmarshalUpdate env data of
        None \<Rightarrow> Inl (UpdateJSONError JSONError)
      | Some updateInfo \<Rightarrow>
          if ZipURL updateInfo = [] then Inl NoZipUrl else Inr updateInfo)"

text \<open>
  What \<open>downloadFile\<close> returns for a request made after \<open>n\<close> actions: the value of
  \<open>downloadFile\<close> without the state.
\<close>

definition fileOutcome :: "env \<Rightarrow> nat \<Rightarrow> string \<Rightarrow> string \<Rightarrow> error + bytes" where
  "fileOutcome env n url localPath =
     (case http env n url of
        Failed \<Rightarrow> Inl TransportError
      | Response st body whole \<Rightarrow>
          if st \<noteq> 200 then Inl (StatusError st)
          else if create_fails env n localPath then Inl CreateFileError
          else if whole then Inr body else Inl BodyReadError)"

text \<open>
  \<open>sort.Slice\<close> with \<open>proxies[i].Speed > proxies[j].Speed\<close> is \<open>sortSlice env\<close>. What the
  library promises of the list it leaves behind is \<open>sortedBySpeed\<close>: the same records, each
  as often as before, and no record before a faster one. The order of records of equal
  speed is not promised.
\<close>

definition sortedBySpeed :: "GitHubProxyData list \<Rightarrow> GitHubProxyData list \<Rightarrow> bool" where
  "sortedBySpeed proxies ranked =
     (mset ranked = mset proxies \<and> sorted_wrt (\<lambda>p q. Speed q \<le> Speed p) ranked)"

definition proxyURL :: "GitHubProxyData \<Rightarrow> string \<Rightarrow> string" where
  "proxyURL proxy originalURL = TrimSuffix (URL proxy) ''/'' @ ''/'' @ originalURL"

text \<open>The loop over the proxies in \<open>downloadUpdateJSON\<close>.\<close>

fun updateLoop ::
  "env \<Rightarrow> ModuleDownloader \<Rightarrow> string \<Rightarrow> GitHubProxyData list \<Rightarrow> nat \<Rightarrow> world
    \<Rightarrow> (error + UpdateInfo) \<times> world" where
  "updateLoop env md originalURL [] tried w = (Inl AllAttemptsFailed, w)"
| "updateLoop env md originalURL (proxy # rest) tried w =
     (if tried \<ge> maxRetry md then (Inl AllAttemptsFailed, w)
      else case downloadWithTimeout env (proxyURL proxy originalURL) w of
             (Inr data, w1) \<Rightarrow> (parseUpdateJSON env data, w1)
           | (Inl err, w1) \<Rightarrow> updateLoop env md originalURL rest (tried + 1) w1)"

definition downloadUpdateJSON ::
  "env \<Rightarrow> ModuleDownloader \<Rightarrow> string \<Rightarrow> world \<Rightarrow> (error + UpdateInfo) \<times> world" where
  "downloadUpdateJSON env md repo w =
     (let originalURL = buildUpdateURL repo in
      case downloadWithTimeout env originalURL w of
        (Inr data, w1) \<Rightarrow> (parseUpdateJSON env data, w1)
      | (Inl err, w1) \<Rightarrow>
          (case GetProxies env w1 of
             (Inl err, w2) \<Rightarrow> (Inl (ProxyListError err), w2)
           | (Inr proxies, w2) \<Rightarrow> updateLoop env md originalURL (sortSlice env proxies) 0 w2))"

text \<open>The loop over the proxies in \<open>downloadWithProxies\<close>.\<close>

fun proxyLoop ::
  "env \<Rightarrow> ModuleDownloader \<Rightarrow> string \<Rightarrow> string \<Rightarrow> GitHubProxyData list \<Rightarrow> nat \<Rightarrow> world
    \<Rightarrow> (error + string) \<times> world" where
  "proxyLoop env md originalURL localPath [] tried w = (Inl AllProxyAttemptsFailed, w)"
| "proxyLoop env md originalURL localPath (proxy # rest) tried w =
     (if tried \<ge> maxRetry md then (Inl AllProxyAttemptsFailed, w)
      else case downloadFile env (proxyURL proxy originalURL) localPath w of
             (Inr body, w1) \<Rightarrow> (Inr localPath, w1)
           | (Inl err, w1) \<Rightarrow> proxyLoop env md originalURL localPath rest (tried + 1) w1)"

definition downloadWithProxies ::
  "env \<Rightarrow> ModuleDownloader \<Rightarrow> string \<Rightarrow> string \<Rightarrow> world \<Rightarrow> (error + string) \<times> world" where
  "downloadWithProxies env md originalURL localPath w =
     (case GetProxies env w of
        (Inl err, w1) \<Rightarrow> (Inl (ProxyListError err), w1)
      | (Inr proxies, w1) \<Rightarrow> proxyLoop env md originalURL localPath (sortSlice env proxies) 0 w1)"

definition localPathOf :: "env \<Rightarrow> ModuleDownloader \<Rightarrow> UpdateInfo \<Rightarrow> string" where
  "localPathOf env md updateInfo =
     (let fileName = ''module_'' @ ReplaceAll (Version updateInfo) (CHR ''/'') (CHR ''_'')
                       @ ''_'' @ showInt env (VersionCode updateInfo) @ ''.zip''
      in joinPath env (cacheDir md) fileName)"

definition downloadModule ::
  "env \<Rightarrow> ModuleDownloader \<Rightarrow> UpdateInfo \<Rightarrow> world \<Rightarrow> (error + string) \<times> world" where
  "downloadModule env md updateInfo w =
     (if mkdir_download_fails env (tick w) (cacheDir md)
      then (Inl MkdirDownloadError, emit MkdirDownload w)
      else
        let w0 = emit MkdirDownload w;
            localPath = localPathOf env md updateInfo;
            originalURL = ZipURL updateInfo
        in case downloadFile env originalURL localPath w0 of
             (Inr body, w1) \<Rightarrow> (Inr localPath, w1)
           | (Inl err, w1) \<Rightarrow>
               let githubURL = extractGitHubURL originalURL in
               if githubURL \<noteq> originalURL
               then (case downloadFile env githubURL localPath w1 of
                       (Inr body, w2) \<Rightarrow> (Inr localPath, w2)
                     | (Inl err, w2) \<Rightarrow> downloadWithProxies env md githubURL localPath w2)
               else downloadWithProxies env md githubURL localPath w1)"

text \<open>
  \<open>handleGetCommand\<close> up to the end of the download: the question whether to install and
  the installation that follows a successful download belong to other parts of the
  program.
\<close>

datatype get_result =
    InvalidRepo
  | UpdateFailed error
  | ModuleFailed error
  | Downloaded UpdateInfo string

definition handleGetCommand :: "env \<Rightarrow> string \<Rightarrow> string \<Rightarrow> world \<Rightarrow> get_result \<times> world" where
  "handleGetCommand env dir repoArg w =
     (let md = NewModuleDownloader dir;
          repo = normalizeRepoName repoArg
      in if repo = [] then (InvalidRepo, w)
         else case downloadUpdateJSON env md repo w of
                (Inl err, w1) \<Rightarrow> (UpdateFailed err, w1)
              | (Inr updateInfo, w1) \<Rightarrow>
                  (case downloadModule env md updateInfo w1 of
                     (Inl err, w2) \<Rightarrow> (ModuleFailed err, w2)
                   | (Inr filePath, w2) \<Rightarrow> (Downloaded updateInfo filePath, w2)))"

section \<open>Reading the attempts off the log\<close>

fun fetchOf :: "event \<Rightarrow> (string \<times> (error + bytes)) list" where
  "fetchOf (Fetch url r) = [(url, r)]"
| "fetchOf e = []"

fun fileFetchOf :: "event \<Rightarrow> (string \<times> (error + bytes)) list" where
  "fileFetchOf (FetchFile url path r) = [(url, r)]"
| "fileFetchOf e = []"

definition fetches :: "world \<Rightarrow> (string \<times> (error + bytes)) list" where
  "fetches w = concat (map fetchOf (trace w))"

definition fileFetches :: "world \<Rightarrow> (string \<times> (error + bytes)) list" where
  "fileFetches w = concat (map fileFetchOf (trace w))"

text \<open>
  An action is quiet when it is not a download attempt, and a state extends another when
  its log is the other's log followed by quiet actions only.
\<close>

definition quiet :: "event \<Rightarrow> bool" where
  "quiet e = (fetchOf e = [] \<and> fileFetchOf e = [])"

definition extends :: "world \<Rightarrow> world \<Rightarrow> bool" where
  "extends w w' = (\<exists>es. trace w' = trace w @ es \<and> (\<forall>e \<in> set es. quiet e))"

section \<open>Concrete inputs\<close>

text \<open>
  Values at which the theorems below are instantiated: a record with only the fields that
  matter filled in, an environment in which every request fails and every file operation
  succeeds, and a fresh state without a cache file. The sort of this environment is an
  insertion sort by descending speed.
\<close>

definition mirror :: "string \<Rightarrow> int \<Rightarrow> real \<Rightarrow> GitHubProxyData" where
  "mirror u l s = \<lparr>URL = u, Server = [], IP = [], Location = [], Latency = l, Speed = s\<rparr>"

definition deadEnv :: env where
  "deadEnv =
     \<lparr>http = (\<lambda>n u. Failed),
      create_fails = (\<lambda>n p. False),
      mkdir_download_fails = (\<lambda>n p. False),
      mkdir_cache_fails = (\<lambda>n. False),
      write_fails = (\<lambda>n. False),
      remove_fails = (\<lambda>n. False),
      stat_fails = (\<lambda>n. False),
      unmarshalCache = (\<lambda>b. None),
      unmarshalResponse = (\<lambda>b. None),
      unmarshalUpdate = (\<lambda>b. None),
      marshalCache = (\<lambda>c. None),
      joinPath = (\<lambda>d f. d @ ''/'' @ f),
      showInt = (\<lambda>i. ''0''),
      sortSlice = sort_key (\<lambda>p. - Speed p)\<rparr>"

definition freshWorld :: world where
  "freshWorld = \<lparr>trace = [], cache = None, files = (\<lambda>p. None), now = 0\<rparr>"

definition okResponse :: GitHubProxyResponse where
  "okResponse = \<lparr>Code = 200, Message = [], Data = [mirror ''m'' 1 1], Total = 1, UpdateTime = []\<rparr>"

definition okCache :: ProxyCache where
  "okCache = \<lparr>CacheData = [mirror ''m'' 1 1], CacheTime = 0, CacheUpdateTime = [], CacheTotal = 1\<rparr>"

text \<open>
  An environment whose directory service answers with \<open>okResponse\<close> and whose cache
  directory cannot be created, and one whose cache file decodes to \<open>okCache\<close>.
\<close>

definition apiEnv :: env where
  "apiEnv = deadEnv\<lparr>http := (\<lambda>n u. Response 200 ''b'' True),
                    unmarshalResponse := (\<lambda>b. Some okResponse),
                    mkdir_cache_fails := (\<lambda>n. True)\<rparr>"

definition cacheEnv :: env where
  "cacheEnv = deadEnv\<lparr>unmarshalCache := (\<lambda>b. Some okCache)\<rparr>"

text \<open>An environment in which \<open>os.Stat\<close> is refused (permission denied).\<close>

definition statEnv :: env where
  "statEnv = deadEnv\<lparr>stat_fails := (\<lambda>n. True)\<rparr>"

definition cachedWorld :: world where
  "cachedWorld = freshWorld\<lparr>cache := Some ''c'', now := 5\<rparr>"

text \<open>
  Four mirrors, not in ranked order, held in a valid cache; an environment in which the
  request made after three earlier actions is the only one that succeeds; a manifest with
  a payload URL that carries no mirror prefix, and one with a payload URL that does.
\<close>

definition fourMirrors :: "GitHubProxyData list" where
  "fourMirrors = [mirror ''m2'' 10 2, mirror ''m3/'' 10 1, mirror ''m1/'' 10 3, mirror ''m4'' 10 0]"

definition mirrorCache :: ProxyCache where
  "mirrorCache = \<lparr>CacheData = fourMirrors, CacheTime = 0, CacheUpdateTime = [], CacheTotal = 4\<rparr>"

definition plainInfo :: UpdateInfo where
  "plainInfo = \<lparr>Changelog = [], Version = ''v'', VersionCode = 1, ZipURL = ''u''\<rparr>"

definition wrappedInfo :: UpdateInfo where
  "wrappedInfo = \<lparr>Changelog = [], Version = ''v'', VersionCode = 1,
                  ZipURL = ''https://ghproxy.cc/'' @ ''u''\<rparr>"

definition fourthEnv :: "nat \<Rightarrow> env" where
  "fourthEnv k = deadEnv\<lparr>http := (\<lambda>n u. if n = k then Response 200 ''z'' True else Failed),
                       unmarshalCache := (\<lambda>b. Some mirrorCache),
                       unmarshalUpdate := (\<lambda>b. Some plainInfo)\<rparr>"

text \<open>
  A manifest without \<open>zipUrl\<close> (Go decodes the absent field, like the empty one, to the
  empty string), and an environment whose every request answers with it.
\<close>

definition noZipInfo :: UpdateInfo where
  "noZipInfo = \<lparr>Changelog = [], Version = ''v'', VersionCode = 1, ZipURL = []\<rparr>"

definition noZipEnv :: env where
  "noZipEnv = deadEnv\<lparr>http := (\<lambda>n u. Response 200 ''j'' True),
                      unmarshalUpdate := (\<lambda>b. Some noZipInfo)\<rparr>"

section \<open>Facts about the string helpers\<close>

lemma HasPrefix_append: "HasPrefix (p @ u) p"
  by (simp add: HasPrefix_def)

lemma HasPrefix_iff: "HasPrefix s p \<longleftrightarrow> (\<exists>u. s = p @ u)"
proof
  assume "HasPrefix s p"
  then have "s = p @ drop (length p) s"
    by (metis HasPrefix_def append_take_drop_id)
  then show "\<exists>u. s = p @ u" ..
next
  assume "\<exists>u. s = p @ u"
  then show "HasPrefix s p" by (auto simp: HasPrefix_def)
qed

lemma drop_prefix_append: "drop (length p) (p @ u) = u"
  by simp

lemma TrimPrefix_append: "TrimPrefix (p @ u) p = u"
  by (simp add: TrimPrefix_def HasPrefix_def)

lemma extractLoop_no_match:
  "\<forall>p \<in> set ps. \<not> HasPrefix url p \<Longrightarrow> extractLoop ps url = url"
  by (induction ps) auto

lemma HasPrefix_take:
  assumes "HasPrefix s p" "n \<le> length p"
  shows "take n s = take n p"
proof -
  have "take n (take (length p) s) = take n p"
    using assms(1) by (simp add: HasPrefix_def)
  with assms(2) show ?thesis by (simp add: min_def)
qed

text \<open>
  The five known prefixes are told apart by their first eighteen bytes, so a URL starts
  with at most one of them.
\<close>

lemma prefixes_keys: "distinct (map (take 18) prefixes)"
  by (simp add: prefixes_def)

lemma prefixes_len: "p \<in> set prefixes \<Longrightarrow> 18 \<le> length p"
  by (auto simp: prefixes_def)

lemma prefixes_exclusive:
  assumes "p \<in> set prefixes" "q \<in> set prefixes" "HasPrefix url p" "HasPrefix url q"
  shows "p = q"
proof -
  have "take 18 p = take 18 url" "take 18 q = take 18 url"
    using HasPrefix_take [OF assms(3) prefixes_len [OF assms(1)]]
      HasPrefix_take [OF assms(4) prefixes_len [OF assms(2)]] by simp_all
  then have "take 18 p = take 18 q" by simp
  moreover have "inj_on (take 18) (set prefixes)"
    using prefixes_keys by (simp add: distinct_map)
  ultimately show ?thesis using assms(1,2) by (simp add: inj_on_def)
qed

lemma extractLoop_match:
  assumes "p \<in> set ps" "HasPrefix url p"
    and "\<forall>q \<in> set ps. HasPrefix url q \<longrightarrow> q = p"
  shows "extractLoop ps url = drop (length p) url"
  using assms
proof (induction ps)
  case Nil
  then show ?case by simp
next
  case (Cons a ps)
  show ?case
  proof (cases "HasPrefix url a")
    case True
    then have "a = p" using Cons.prems(3) by simp
    with True show ?thesis by (simp add: TrimPrefix_def)
  next
    case False
    then have "a \<noteq> p" using Cons.prems(2) by blast
    then have "p \<in> set ps" using Cons.prems(1) by simp
    moreover have "\<forall>q \<in> set ps. HasPrefix url q \<longrightarrow> q = p"
      using Cons.prems(3) by simp
    ultimately have "extractLoop ps url = drop (length p) url"
      using Cons.IH Cons.prems(2) by blast
    with False show ?thesis by simp
  qed
qed

lemma prefixes_nonempty: "p \<in> set prefixes \<Longrightarrow> p \<noteq> []"
  by (auto simp: prefixes_def)

lemma extractGitHubURL_strip:
  assumes "p \<in> set prefixes"
  shows "extractGitHubURL (p @ u) = u"
proof -
  have "\<forall>q \<in> set prefixes. HasPrefix (p @ u) q \<longrightarrow> q = p"
    using prefixes_exclusive [OF _ assms _ HasPrefix_append] by blast
  from extractLoop_match [OF assms HasPrefix_append this]
  show ?thesis by (simp add: extractGitHubURL_def)
qed

section \<open>Facts about the proxy manager\<close>

lemma netCalls_emit: "netCalls (emit e w) = netCalls w + (if isNetwork e then 1 else 0)"
  by (simp add: netCalls_def emit_def)

lemma apiCalls_emit: "apiCalls (emit e w) = apiCalls w + (if e = ApiCall then 1 else 0)"
  by (simp add: apiCalls_def emit_def)

lemma netCalls_cache_update: "netCalls (w\<lparr>cache := x\<rparr>) = netCalls w"
  by (simp add: netCalls_def)

lemma apiCalls_cache_update: "apiCalls (w\<lparr>cache := x\<rparr>) = apiCalls w"
  by (simp add: apiCalls_def)

lemma isCacheValid_iff:
  "isCacheValid env w \<longleftrightarrow>
     (\<exists>data c. cache w = Some data \<and> unmarshalCache env data = Some c
        \<and> Since w (CacheTime c) \<le> cacheValidDuration)"
  by (auto simp: isCacheValid_def fileExists_def readCacheFile_def split: option.splits)

lemma saveToCache_netCalls: "netCalls (snd (saveToCache env r w)) = netCalls w"
  by (simp add: saveToCache_def Let_def netCalls_emit netCalls_cache_update
      split: option.splits)

lemma saveToCache_apiCalls: "apiCalls (snd (saveToCache env r w)) = apiCalls w"
  by (simp add: saveToCache_def Let_def apiCalls_emit apiCalls_cache_update
      split: option.splits)

lemma fetchFromAPI_good:
  assumes "http env (tick w) githubProxyAPI = Response 200 body True"
    and "unmarshalResponse env body = Some r" and "Code r = 200"
  shows "fetchFromAPI env w = (Inr (Data r), snd (saveToCache env r (emit ApiCall w)))"
  using assms by (simp add: fetchFromAPI_def Let_def split: prod.splits option.splits)

lemma fetchFromAPI_netCalls: "netCalls (snd (fetchFromAPI env w)) = netCalls w + 1"
proof (cases "http env (tick w) githubProxyAPI")
  case Failed
  then show ?thesis by (simp add: fetchFromAPI_def Let_def netCalls_emit)
next
  case (Response st body whole)
  show ?thesis
  proof (cases "st = 200 \<and> whole \<and> (\<exists>r. unmarshalResponse env body = Some r \<and> Code r = 200)")
    case True
    then obtain r where r: "unmarshalResponse env body = Some r" "Code r = 200" by blast
    from True Response have "http env (tick w) githubProxyAPI = Response 200 body True"
      by simp
    from fetchFromAPI_good [OF this r] show ?thesis
      by (simp add: saveToCache_netCalls netCalls_emit)
  next
    case False
    with Response show ?thesis
      by (auto simp: fetchFromAPI_def Let_def netCalls_emit split: option.splits)
  qed
qed

lemma fetchFromAPI_apiCalls: "apiCalls (snd (fetchFromAPI env w)) = apiCalls w + 1"
proof (cases "http env (tick w) githubProxyAPI")
  case Failed
  then show ?thesis by (simp add: fetchFromAPI_def Let_def apiCalls_emit)
next
  case (Response st body whole)
  show ?thesis
  proof (cases "st = 200 \<and> whole \<and> (\<exists>r. unmarshalResponse env body = Some r \<and> Code r = 200)")
    case True
    then obtain r where r: "unmarshalResponse env body = Some r" "Code r = 200" by blast
    from True Response have "http env (tick w) githubProxyAPI = Response 200 body True"
      by simp
    from fetchFromAPI_good [OF this r] show ?thesis
      by (simp add: saveToCache_apiCalls apiCalls_emit)
  next
    case False
    with Response show ?thesis
      by (auto simp: fetchFromAPI_def Let_def apiCalls_emit split: option.splits)
  qed
qed

text \<open>
  The loop of \<open>GetBestProxy\<close> returns an index of the slice as soon as the slice is not
  empty, whatever the scores are: with \<open>bestScore = -1\<close> the first record is taken, and a
  pointer once set is only ever replaced by another one.
\<close>

lemma bestLoop_set:
  "j < i \<Longrightarrow> \<exists>k. bestLoop sc ps i (Some j) s = Some k \<and> k < i + length ps"
proof (induction ps arbitrary: i j s)
  case Nil
  then show ?case by simp
next
  case (Cons p ps)
  have a: "\<exists>k. bestLoop sc ps (i + 1) (Some i) (sc p) = Some k \<and> k < (i + 1) + length ps"
    by (rule Cons.IH) simp
  have b: "\<exists>k. bestLoop sc ps (i + 1) (Some j) s = Some k \<and> k < (i + 1) + length ps"
    by (rule Cons.IH) (use Cons.prems in simp)
  from a b show ?case by auto
qed

lemma bestLoop_first:
  "s < 0 \<Longrightarrow> bestLoop sc (p # ps) i b s = bestLoop sc ps (i + 1) (Some i) (sc p)"
  by simp

lemma bestLoop_nonempty:
  assumes "ps \<noteq> []"
  shows "\<exists>k. bestLoop sc ps 0 None (- 1) = Some k \<and> k < length ps"
proof -
  from assms obtain p rest where ps: "ps = p # rest" by (cases ps) auto
  have "\<exists>k. bestLoop sc rest (0 + 1) (Some 0) (sc p) = Some k \<and> k < (0 + 1) + length rest"
    by (rule bestLoop_set) simp
  then show ?thesis unfolding ps by simp
qed

text \<open>
  When no score is negative, the guard \<open>bestScore < 0\<close> is true in the first iteration
  only, and the loop returns the first index of a greatest score.
\<close>

lemma bestLoop_max:
  assumes "\<forall>p \<in> set ps. 0 \<le> sc p" and "0 \<le> s"
  shows "(\<exists>d. bestLoop sc ps i (Some j) s = Some (i + d) \<and> d < length ps \<and> s < sc (ps ! d)
            \<and> (\<forall>m < length ps. sc (ps ! m) \<le> sc (ps ! d))
            \<and> (\<forall>m < d. sc (ps ! m) < sc (ps ! d)))
       \<or> (bestLoop sc ps i (Some j) s = Some j \<and> (\<forall>m < length ps. sc (ps ! m) \<le> s))"
    (is "?A ps i j s \<or> ?B ps i j s")
  using assms
proof (induction ps arbitrary: i j s)
  case Nil
  then show ?case by simp
next
  case (Cons p ps)
  from Cons.prems have nn: "\<forall>q \<in> set ps. 0 \<le> sc q" and p0: "0 \<le> sc p" by simp_all
  show ?case
  proof (cases "sc p > s")
    case True
    then have L: "bestLoop sc (p # ps) i (Some j) s = bestLoop sc ps (i + 1) (Some i) (sc p)"
      by simp
    from Cons.IH [OF nn p0, of "i + 1" i] show ?thesis
    proof
      assume "?A ps (i + 1) i (sc p)"
      then obtain d where d: "bestLoop sc ps (i + 1) (Some i) (sc p) = Some (i + 1 + d)"
        "d < length ps" "sc p < sc (ps ! d)"
        "\<forall>m < length ps. sc (ps ! m) \<le> sc (ps ! d)" "\<forall>m < d. sc (ps ! m) < sc (ps ! d)"
        by blast
      have 1: "bestLoop sc (p # ps) i (Some j) s = Some (i + Suc d)"
        unfolding L d(1) by simp
      have 2: "Suc d < length (p # ps)" using d(2) by simp
      have 3: "s < sc ((p # ps) ! Suc d)" using True d(3) by simp
      have 4: "\<forall>m < length (p # ps). sc ((p # ps) ! m) \<le> sc ((p # ps) ! Suc d)"
        using d(3,4) by (auto simp: nth_Cons split: nat.split)
      have 5: "\<forall>m < Suc d. sc ((p # ps) ! m) < sc ((p # ps) ! Suc d)"
        using d(3,5) by (auto simp: nth_Cons split: nat.split)
      from 1 2 3 4 5 have "?A (p # ps) i j s" by blast
      then show ?thesis ..
    next
      assume "?B ps (i + 1) i (sc p)"
      then have b: "bestLoop sc ps (i + 1) (Some i) (sc p) = Some i"
        "\<forall>m < length ps. sc (ps ! m) \<le> sc p" by blast+
      have 1: "bestLoop sc (p # ps) i (Some j) s = Some (i + 0)"
        unfolding L b(1) by simp
      have 4: "\<forall>m < length (p # ps). sc ((p # ps) ! m) \<le> sc ((p # ps) ! 0)"
        using b(2) by (auto simp: nth_Cons split: nat.split)
      from 1 4 True have "?A (p # ps) i j s" by auto
      then show ?thesis ..
    qed
  next
    case False
    with Cons.prems(2) have L: "bestLoop sc (p # ps) i (Some j) s
        = bestLoop sc ps (i + 1) (Some j) s"
      by simp
    from Cons.IH [OF nn Cons.prems(2), of "i + 1" j] show ?thesis
    proof
      assume "?A ps (i + 1) j s"
      then obtain d where d: "bestLoop sc ps (i + 1) (Some j) s = Some (i + 1 + d)"
        "d < length ps" "s < sc (ps ! d)"
        "\<forall>m < length ps. sc (ps ! m) \<le> sc (ps ! d)" "\<forall>m < d. sc (ps ! m) < sc (ps ! d)"
        by blast
      have 1: "bestLoop sc (p # ps) i (Some j) s = Some (i + Suc d)"
        unfolding L d(1) by simp
      have 2: "Suc d < length (p # ps)" using d(2) by simp
      have 3: "s < sc ((p # ps) ! Suc d)" using d(3) by simp
      have 4: "\<forall>m < length (p # ps). sc ((p # ps) ! m) \<le> sc ((p # ps) ! Suc d)"
        using False d(3,4) by (auto simp: nth_Cons split: nat.split)
      have 5: "\<forall>m < Suc d. sc ((p # ps) ! m) < sc ((p # ps) ! Suc d)"
        using False d(3,5) by (auto simp: nth_Cons split: nat.split)
      from 1 2 3 4 5 have "?A (p # ps) i j s" by blast
      then show ?thesis ..
    next
      assume "?B ps (i + 1) j s"
      then have b: "bestLoop sc ps (i + 1) (Some j) s = Some j"
        "\<forall>m < length ps. sc (ps ! m) \<le> s" by blast+
      have "\<forall>m < length (p # ps). sc ((p # ps) ! m) \<le> s"
        using False b(2) by (auto simp: nth_Cons split: nat.split)
      with L b(1) have "?B (p # ps) i j s" by simp
      then show ?thesis ..
    qed
  qed
qed

lemma best_nonnegative_scores:
  assumes "ps \<noteq> []" and "\<forall>p \<in> set ps. 0 \<le> sc p"
  shows "\<exists>d < length ps. best sc ps = Inr (Some (ps ! d))
      \<and> (\<forall>m < length ps. sc (ps ! m) \<le> sc (ps ! d))
      \<and> (\<forall>m < d. sc (ps ! m) < sc (ps ! d))"
proof -
  from assms(1) obtain p rest where ps: "ps = p # rest" by (cases ps) auto
  from assms(2) have nn: "\<forall>q \<in> set rest. 0 \<le> sc q" and p0: "0 \<le> sc p"
    unfolding ps by simp_all
  have L: "bestLoop sc ps 0 None (- 1) = bestLoop sc rest 1 (Some 0) (sc p)"
    unfolding ps by simp
  from bestLoop_max [OF nn p0, of 1 0] show ?thesis
  proof
    assume "\<exists>d. bestLoop sc rest 1 (Some 0) (sc p) = Some (1 + d) \<and> d < length rest
        \<and> sc p < sc (rest ! d)
        \<and> (\<forall>m < length rest. sc (rest ! m) \<le> sc (rest ! d))
        \<and> (\<forall>m < d. sc (rest ! m) < sc (rest ! d))"
    then obtain d where d: "bestLoop sc rest 1 (Some 0) (sc p) = Some (1 + d)"
      "d < length rest" "sc p < sc (rest ! d)"
      "\<forall>m < length rest. sc (rest ! m) \<le> sc (rest ! d)" "\<forall>m < d. sc (rest ! m) < sc (rest ! d)"
      by blast
    have r: "bestLoop sc ps 0 None (- 1) = Some (Suc d)"
      unfolding L d(1) by simp
    have 1: "best sc ps = Inr (Some (ps ! Suc d))"
      using assms(1) by (simp add: best_def r)
    have 2: "Suc d < length ps" using d(2) by (simp add: ps)
    have 4: "\<forall>m < length ps. sc (ps ! m) \<le> sc (ps ! Suc d)"
      unfolding ps using d(3,4) by (auto simp: nth_Cons split: nat.split)
    have 5: "\<forall>m < Suc d. sc (ps ! m) < sc (ps ! Suc d)"
      unfolding ps using d(3,5) by (auto simp: nth_Cons split: nat.split)
    from 1 2 4 5 show ?thesis by blast
  next
    assume "bestLoop sc rest 1 (Some 0) (sc p) = Some 0
        \<and> (\<forall>m < length rest. sc (rest ! m) \<le> sc p)"
    then have b: "bestLoop sc rest 1 (Some 0) (sc p) = Some 0"
      "\<forall>m < length rest. sc (rest ! m) \<le> sc p" by blast+
    have r: "bestLoop sc ps 0 None (- 1) = Some 0"
      unfolding L b(1) ..
    have 1: "best sc ps = Inr (Some (ps ! 0))"
      using assms(1) by (simp add: best_def r)
    have 4: "\<forall>m < length ps. sc (ps ! m) \<le> sc (ps ! 0)"
      unfolding ps using b(2) by (auto simp: nth_Cons split: nat.split)
    from 1 4 assms(1) show ?thesis by auto
  qed
qed

section \<open>Facts about the log\<close>

lemma fetches_emit: "fetches (emit e w) = fetches w @ fetchOf e"
  by (simp add: fetches_def emit_def)

lemma fileFetches_emit: "fileFetches (emit e w) = fileFetches w @ fileFetchOf e"
  by (simp add: fileFetches_def emit_def)

lemma fetches_trace: "trace w' = trace w \<Longrightarrow> fetches w' = fetches w"
  by (simp add: fetches_def)

lemma fileFetches_trace: "trace w' = trace w \<Longrightarrow> fileFetches w' = fileFetches w"
  by (simp add: fileFetches_def)

lemma tick_emit: "tick (emit e w) = Suc (tick w)"
  by (simp add: tick_def emit_def)

text \<open>The proxy manager logs no download attempt.\<close>

lemma quiet_simps: "quiet ApiCall" "quiet MkdirCache" "quiet WriteCache" "quiet RemoveCache"
  by (simp_all add: quiet_def)

lemma extends_refl: "extends w w"
  by (simp add: extends_def)

lemma extends_emit: "quiet e \<Longrightarrow> extends w w1 \<Longrightarrow> extends w (emit e w1)"
  by (auto simp: extends_def emit_def)

lemma extends_cache: "extends w w1 \<Longrightarrow> extends w (w1\<lparr>cache := x\<rparr>)"
  by (simp add: extends_def)

lemma extends_fetches: "extends w w' \<Longrightarrow> fetches w' = fetches w"
  by (auto simp: extends_def fetches_def quiet_def)

lemma extends_fileFetches: "extends w w' \<Longrightarrow> fileFetches w' = fileFetches w"
  by (auto simp: extends_def fileFetches_def quiet_def)

lemma saveToCache_extends: "extends w w1 \<Longrightarrow> extends w (snd (saveToCache env r w1))"
  by (simp add: saveToCache_def Let_def extends_emit extends_cache quiet_simps
      split: option.splits)

lemma fetchFromAPI_extends: "extends w (snd (fetchFromAPI env w))"
proof -
  have a: "extends w (emit ApiCall w)"
    by (rule extends_emit [OF quiet_simps(1) extends_refl])
  show ?thesis
  proof (cases "http env (tick w) githubProxyAPI")
    case Failed
    then show ?thesis using a by (simp add: fetchFromAPI_def Let_def)
  next
    case (Response st body whole)
    show ?thesis
    proof (cases "st = 200 \<and> whole \<and> (\<exists>r. unmarshalResponse env body = Some r \<and> Code r = 200)")
      case True
      then obtain r where r: "unmarshalResponse env body = Some r" "Code r = 200" by blast
      from True Response have "http env (tick w) githubProxyAPI = Response 200 body True"
        by simp
      from fetchFromAPI_good [OF this r] saveToCache_extends [OF a, of env r]
      show ?thesis by simp
    next
      case False
      with Response a show ?thesis
        by (auto simp: fetchFromAPI_def Let_def split: option.splits)
    qed
  qed
qed

lemma GetProxies_extends: "extends w (snd (GetProxies env w))"
  by (simp add: GetProxies_def extends_refl fetchFromAPI_extends)

lemma saveToCache_files: "files (snd (saveToCache env r w)) = files w"
  by (simp add: saveToCache_def Let_def emit_def split: option.splits)

lemma fetchFromAPI_files: "files (snd (fetchFromAPI env w)) = files w"
proof (cases "http env (tick w) githubProxyAPI")
  case Failed
  then show ?thesis by (simp add: fetchFromAPI_def Let_def emit_def)
next
  case (Response st body whole)
  show ?thesis
  proof (cases "st = 200 \<and> whole \<and> (\<exists>r. unmarshalResponse env body = Some r \<and> Code r = 200)")
    case True
    then obtain r where r: "unmarshalResponse env body = Some r" "Code r = 200" by blast
    from True Response have "http env (tick w) githubProxyAPI = Response 200 body True"
      by simp
    from fetchFromAPI_good [OF this r] show ?thesis
      by (simp add: saveToCache_files emit_def)
  next
    case False
    with Response show ?thesis
      by (auto simp: fetchFromAPI_def Let_def emit_def split: option.splits)
  qed
qed

lemma GetProxies_files: "files (snd (GetProxies env w)) = files w"
  by (simp add: GetProxies_def fetchFromAPI_files)

section \<open>Facts about the single requests\<close>

lemma downloadWithTimeout_eq:
  "downloadWithTimeout env url w
     = (httpOutcome (http env (tick w) url), emit (Fetch url (httpOutcome (http env (tick w) url))) w)"
  by (simp add: downloadWithTimeout_def Let_def)

lemma downloadWithTimeout_fetches:
  "downloadWithTimeout env url w = (r, w1) \<Longrightarrow> fetches w1 = fetches w @ [(url, r)]"
  by (auto simp: downloadWithTimeout_eq fetches_emit)

lemma downloadWithTimeout_fileFetches:
  "downloadWithTimeout env url w = (r, w1) \<Longrightarrow> fileFetches w1 = fileFetches w"
  by (auto simp: downloadWithTimeout_eq fileFetches_emit)

lemma downloadFile_trace:
  "downloadFile env url path w = (r, w1) \<Longrightarrow> trace w1 = trace w @ [FetchFile url path r]"
  by (auto simp: downloadFile_def emit_def Let_def split: http_result.splits if_splits)

lemma downloadFile_fileFetches:
  "downloadFile env url path w = (r, w1) \<Longrightarrow> fileFetches w1 = fileFetches w @ [(url, r)]"
  by (drule downloadFile_trace) (simp add: fileFetches_def)

lemma downloadFile_fetches:
  "downloadFile env url path w = (r, w1) \<Longrightarrow> fetches w1 = fetches w"
  by (drule downloadFile_trace) (simp add: fetches_def)

lemma downloadFile_outcome:
  "fst (downloadFile env url path w) = fileOutcome env (tick w) url path"
  by (simp add: downloadFile_def fileOutcome_def Let_def split: http_result.splits)

lemma downloadFile_tick:
  "downloadFile env url path w = (r, w1) \<Longrightarrow> tick w1 = Suc (tick w)"
  by (drule downloadFile_trace) (simp add: tick_def)

lemma downloadFile_success:
  "downloadFile env url path w = (Inr body, w1) \<Longrightarrow> files w1 path = Some body"
  by (auto simp: downloadFile_def emit_def Let_def split: http_result.splits if_splits)

section \<open>Facts about the two loops over the proxies\<close>

text \<open>
  What a loop started with \<open>tried\<close> failures behind it does: \<open>outs\<close> are the outcomes of
  its attempts, made at the first proxies of the list in order, each the answer of the
  environment to that request at its turn; all but the last are failures; either the last
  is a success, and its body decides the result, or all are failures, the loop has used
  up the list or its budget, and the result is the aggregate error.
\<close>

lemma zip_take_length:
  "length ys \<le> n \<Longrightarrow> zip (take n xs) ys = zip xs ys"
proof (induction ys arbitrary: n xs)
  case Nil
  then show ?case by simp
next
  case (Cons y ys)
  then obtain m where n: "n = Suc m" by (cases n) auto
  show ?case
  proof (cases xs)
    case Nil
    then show ?thesis by simp
  next
    case (Cons x xs')
    with Cons.IH [of m xs'] Cons.prems n show ?thesis by simp
  qed
qed

lemma updateLoop_attempts:
  "\<exists>outs. length outs \<le> min (maxRetry md - tried) (length ps)
     \<and> (\<forall>i < length outs.
            outs ! i = httpOutcome (http env (tick w + i) (proxyURL (ps ! i) url)))
     \<and> fetches (snd (updateLoop env md url ps tried w))
         = fetches w @ zip (map (\<lambda>p. proxyURL p url) ps) outs
     \<and> (\<forall>out \<in> set (butlast outs). isl out)
     \<and> ((outs \<noteq> [] \<and> (\<exists>data. last outs = Inr data
            \<and> fst (updateLoop env md url ps tried w) = parseUpdateJSON env data))
        \<or> ((\<forall>out \<in> set outs. isl out)
            \<and> length outs = min (maxRetry md - tried) (length ps)
            \<and> fst (updateLoop env md url ps tried w) = Inl AllAttemptsFailed))"
    (is "\<exists>outs. ?P ps tried w outs")
proof (induction ps arbitrary: tried w)
  case Nil
  have "?P [] tried w []" by simp
  then show ?case ..
next
  case (Cons p ps)
  show ?case
  proof (cases "tried \<ge> maxRetry md")
    case True
    then have "?P (p # ps) tried w []" by simp
    then show ?thesis ..
  next
    case False
    define u where "u = proxyURL p url"
    define r where "r = httpOutcome (http env (tick w) u)"
    define w1 where "w1 = emit (Fetch u r) w"
    have d: "downloadWithTimeout env u w = (r, w1)"
      by (simp add: downloadWithTimeout_eq r_def w1_def)
    have f1: "fetches w1 = fetches w @ [(u, r)]"
      by (rule downloadWithTimeout_fetches [OF d])
    have t0: "httpOutcome (http env (tick w) (proxyURL p url)) = r"
      by (simp add: r_def u_def)
    have t1: "tick w1 = Suc (tick w)"
      by (simp add: w1_def tick_emit)
    show ?thesis
    proof (cases r)
      case (Inr data)
      with False d have L: "updateLoop env md url (p # ps) tried w = (parseUpdateJSON env data, w1)"
        by (simp add: u_def)
      have "?P (p # ps) tried w [Inr data]"
        unfolding L using False f1 Inr t0 by (simp add: u_def)
      then show ?thesis ..
    next
      case (Inl e)
      with False d have L: "updateLoop env md url (p # ps) tried w
          = updateLoop env md url ps (tried + 1) w1"
        by (simp add: u_def)
      from Cons.IH [of "tried + 1" w1] obtain outs where o: "?P ps (tried + 1) w1 outs" ..
      from o have "length outs \<le> min (maxRetry md - (tried + 1)) (length ps)" by blast
      then have len: "length (r # outs) \<le> min (maxRetry md - tried) (length (p # ps))"
        using False by (simp, arith)
      from o have "\<forall>i < length outs.
          outs ! i = httpOutcome (http env (tick w1 + i) (proxyURL (ps ! i) url))" by blast
      then have tie: "\<forall>i < length (r # outs).
          (r # outs) ! i = httpOutcome (http env (tick w + i) (proxyURL ((p # ps) ! i) url))"
        using t0 t1 by (simp add: nth_Cons split: nat.split)
      from o have "fetches (snd (updateLoop env md url ps (tried + 1) w1))
          = fetches w1 @ zip (map (\<lambda>p. proxyURL p url) ps) outs" by blast
      then have fe: "fetches (snd (updateLoop env md url ps (tried + 1) w1))
          = fetches w @ zip (map (\<lambda>p. proxyURL p url) (p # ps)) (r # outs)"
        using f1 by (simp add: u_def)
      from o have "\<forall>out \<in> set (butlast outs). isl out" by blast
      then have bl: "\<forall>out \<in> set (butlast (r # outs)). isl out"
        using Inl by simp
      from o have "(outs \<noteq> [] \<and> (\<exists>data. last outs = Inr data
            \<and> fst (updateLoop env md url ps (tried + 1) w1) = parseUpdateJSON env data))
        \<or> ((\<forall>out \<in> set outs. isl out)
            \<and> length outs = min (maxRetry md - (tried + 1)) (length ps)
            \<and> fst (updateLoop env md url ps (tried + 1) w1) = Inl AllAttemptsFailed)"
        by blast
      then have fin: "(r # outs \<noteq> [] \<and> (\<exists>data. last (r # outs) = Inr data
            \<and> fst (updateLoop env md url ps (tried + 1) w1) = parseUpdateJSON env data))
        \<or> ((\<forall>out \<in> set (r # outs). isl out)
            \<and> length (r # outs) = min (maxRetry md - tried) (length (p # ps))
            \<and> fst (updateLoop env md url ps (tried + 1) w1) = Inl AllAttemptsFailed)"
      proof
        assume "outs \<noteq> [] \<and> (\<exists>data. last outs = Inr data
            \<and> fst (updateLoop env md url ps (tried + 1) w1) = parseUpdateJSON env data)"
        then show ?thesis by simp
      next
        assume a: "(\<forall>out \<in> set outs. isl out)
            \<and> length outs = min (maxRetry md - (tried + 1)) (length ps)
            \<and> fst (updateLoop env md url ps (tried + 1) w1) = Inl AllAttemptsFailed"
        then have "length outs = min (maxRetry md - (tried + 1)) (length ps)" by blast
        then have "length (r # outs) = min (maxRetry md - tried) (length (p # ps))"
          using False by (simp add: min_def, arith)
        with a Inl show ?thesis by simp
      qed
      have "?P (p # ps) tried w (r # outs)"
        unfolding L using len tie fe bl fin by blast
      then show ?thesis ..
    qed
  qed
qed

lemma updateLoop_fileFetches:
  "fileFetches (snd (updateLoop env md url ps tried w)) = fileFetches w"
proof (induction ps arbitrary: tried w)
  case Nil
  show ?case by simp
next
  case (Cons p ps)
  obtain r w1 where d: "downloadWithTimeout env (proxyURL p url) w = (r, w1)"
    by (cases "downloadWithTimeout env (proxyURL p url) w")
  have f: "fileFetches w1 = fileFetches w"
    by (rule downloadWithTimeout_fileFetches [OF d])
  show ?case
  proof (cases r)
    case (Inr data)
    with d f show ?thesis by simp
  next
    case (Inl e)
    with d f Cons.IH [of "tried + 1" w1] show ?thesis by simp
  qed
qed

lemma proxyLoop_attempts:
  "\<exists>outs. length outs \<le> min (maxRetry md - tried) (length ps)
     \<and> (\<forall>i < length outs.
            outs ! i = fileOutcome env (tick w + i) (proxyURL (ps ! i) url) path)
     \<and> fileFetches (snd (proxyLoop env md url path ps tried w))
         = fileFetches w @ zip (map (\<lambda>p. proxyURL p url) ps) outs
     \<and> (\<forall>out \<in> set (butlast outs). isl out)
     \<and> ((outs \<noteq> [] \<and> (\<exists>body. last outs = Inr body
            \<and> fst (proxyLoop env md url path ps tried w) = Inr path
            \<and> files (snd (proxyLoop env md url path ps tried w)) path = Some body))
        \<or> ((\<forall>out \<in> set outs. isl out)
            \<and> length outs = min (maxRetry md - tried) (length ps)
            \<and> fst (proxyLoop env md url path ps tried w) = Inl AllProxyAttemptsFailed))"
    (is "\<exists>outs. ?P ps tried w outs")
proof (induction ps arbitrary: tried w)
  case Nil
  have "?P [] tried w []" by simp
  then show ?case ..
next
  case (Cons p ps)
  show ?case
  proof (cases "tried \<ge> maxRetry md")
    case True
    then have "?P (p # ps) tried w []" by simp
    then show ?thesis ..
  next
    case False
    define u where "u = proxyURL p url"
    obtain r w1 where d: "downloadFile env u path w = (r, w1)"
      by (cases "downloadFile env u path w")
    have f1: "fileFetches w1 = fileFetches w @ [(u, r)]"
      by (rule downloadFile_fileFetches [OF d])
    have t0: "fileOutcome env (tick w) (proxyURL p url) path = r"
      using downloadFile_outcome [of env u path w] d by (simp add: u_def)
    have t1: "tick w1 = Suc (tick w)"
      by (rule downloadFile_tick [OF d])
    show ?thesis
    proof (cases r)
      case (Inr body)
      with False d have L: "proxyLoop env md url path (p # ps) tried w = (Inr path, w1)"
        by (simp add: u_def)
      from d Inr have "files w1 path = Some body"
        by (simp add: downloadFile_success)
      then have "?P (p # ps) tried w [Inr body]"
        unfolding L using False f1 Inr t0 by (simp add: u_def)
      then show ?thesis ..
    next
      case (Inl e)
      with False d have L: "proxyLoop env md url path (p # ps) tried w
          = proxyLoop env md url path ps (tried + 1) w1"
        by (simp add: u_def)
      from Cons.IH [of "tried + 1" w1] obtain outs where o: "?P ps (tried + 1) w1 outs" ..
      from o have "length outs \<le> min (maxRetry md - (tried + 1)) (length ps)" by blast
      then have len: "length (r # outs) \<le> min (maxRetry md - tried) (length (p # ps))"
        using False by (simp, arith)
      from o have "\<forall>i < length outs.
          outs ! i = fileOutcome env (tick w1 + i) (proxyURL (ps ! i) url) path" by blast
      then have tie: "\<forall>i < length (r # outs).
          (r # outs) ! i = fileOutcome env (tick w + i) (proxyURL ((p # ps) ! i) url) path"
        using t0 t1 by (simp add: nth_Cons split: nat.split)
      from o have "fileFetches (snd (proxyLoop env md url path ps (tried + 1) w1))
          = fileFetches w1 @ zip (map (\<lambda>p. proxyURL p url) ps) outs" by blast
      then have fe: "fileFetches (snd (proxyLoop env md url path ps (tried + 1) w1))
          = fileFetches w @ zip (map (\<lambda>p. proxyURL p url) (p # ps)) (r # outs)"
        using f1 by (simp add: u_def)
      from o have "\<forall>out \<in> set (butlast outs). isl out" by blast
      then have bl: "\<forall>out \<in> set (butlast (r # outs)). isl out"
        using Inl by simp
      from o have "(outs \<noteq> [] \<and> (\<exists>body. last outs = Inr body
            \<and> fst (proxyLoop env md url path ps (tried + 1) w1) = Inr path
            \<and> files (snd (proxyLoop env md url path ps (tried + 1) w1)) path = Some body))
        \<or> ((\<forall>out \<in> set outs. isl out)
            \<and> length outs = min (maxRetry md - (tried + 1)) (length ps)
            \<and> fst (proxyLoop env md url path ps (tried + 1) w1) = Inl AllProxyAttemptsFailed)"
        by blast
      then have fin: "(r # outs \<noteq> [] \<and> (\<exists>body. last (r # outs) = Inr body
            \<and> fst (proxyLoop env md url path ps (tried + 1) w1) = Inr path
            \<and> files (snd (proxyLoop env md url path ps (tried + 1) w1)) path = Some body))
        \<or> ((\<forall>out \<in> set (r # outs). isl out)
            \<and> length (r # outs) = min (maxRetry md - tried) (length (p # ps))
            \<and> fst (proxyLoop env md url path ps (tried + 1) w1) = Inl AllProxyAttemptsFailed)"
      proof
        assume "outs \<noteq> [] \<and> (\<exists>body. last outs = Inr body
            \<and> fst (proxyLoop env md url path ps (tried + 1) w1) = Inr path
            \<and> files (snd (proxyLoop env md url path ps (tried + 1) w1)) path = Some body)"
        then show ?thesis by simp
      next
        assume a: "(\<forall>out \<in> set outs. isl out)
            \<and> length outs = min (maxRetry md - (tried + 1)) (length ps)
            \<and> fst (proxyLoop env md url path ps (tried + 1) w1) = Inl AllProxyAttemptsFailed"
        then have "length outs = min (maxRetry md - (tried + 1)) (length ps)" by blast
        then have "length (r # outs) = min (maxRetry md - tried) (length (p # ps))"
          using False by (simp add: min_def, arith)
        with a Inl show ?thesis by simp
      qed
      have "?P (p # ps) tried w (r # outs)"
        unfolding L using len tie fe bl fin by blast
      then show ?thesis ..
    qed
  qed
qed

lemma proxyLoop_fetches:
  "fetches (snd (proxyLoop env md url path ps tried w)) = fetches w"
proof (induction ps arbitrary: tried w)
  case Nil
  show ?case by simp
next
  case (Cons p ps)
  obtain r w1 where d: "downloadFile env (proxyURL p url) path w = (r, w1)"
    by (cases "downloadFile env (proxyURL p url) path w")
  have f: "fetches w1 = fetches w"
    by (rule downloadFile_fetches [OF d])
  show ?case
  proof (cases r)
    case (Inr body)
    with d f show ?thesis by simp
  next
    case (Inl e)
    with d f Cons.IH [of "tried + 1" w1] show ?thesis by simp
  qed
qed

section \<open>Facts about a sorted list of proxies\<close>

lemma sortedBySpeed_length: "sortedBySpeed proxies ranked \<Longrightarrow> length ranked = length proxies"
  unfolding sortedBySpeed_def by (metis size_mset)

lemma sortedBySpeed_set: "sortedBySpeed proxies ranked \<Longrightarrow> set ranked = set proxies"
  unfolding sortedBySpeed_def by (metis set_mset_mset)

lemma sortedBySpeed_nth:
  assumes "sortedBySpeed proxies ranked" and "i \<le> j" and "j < length ranked"
  shows "Speed (ranked ! j) \<le> Speed (ranked ! i)"
proof (cases "i = j")
  case True
  then show ?thesis by simp
next
  case False
  with assms(2) have ij: "i < j" by simp
  from assms(1) have sw: "sorted_wrt (\<lambda>p q. Speed q \<le> Speed p) ranked"
    by (simp add: sortedBySpeed_def)
  from sorted_wrt_nth_less [OF sw ij assms(3)] show ?thesis .
qed

lemma sortedBySpeed_sort_key: "sortedBySpeed ps (sort_key (\<lambda>p. - Speed p) ps)"
proof -
  have "sorted (map (\<lambda>p. - Speed p) (sort_key (\<lambda>p. - Speed p) ps))" by simp
  then have "sorted_wrt (\<lambda>p q. Speed q \<le> Speed p) (sort_key (\<lambda>p. - Speed p) ps)"
    by (simp add: sorted_wrt_map)
  then show ?thesis by (simp add: sortedBySpeed_def)
qed
section \<open>Facts about the two downloads\<close>

lemma parseUpdateJSON_Inr:
  "parseUpdateJSON env data = Inr ui \<Longrightarrow> unmarshalUpdate env data = Some ui \<and> ZipURL ui \<noteq> []"
  by (auto simp: parseUpdateJSON_def split: option.splits if_splits)

lemma GetProxies_fetches: "GetProxies env w = (r, w1) \<Longrightarrow> fetches w1 = fetches w"
  using extends_fetches [OF GetProxies_extends, of env w] by simp

lemma GetProxies_fileFetches: "GetProxies env w = (r, w1) \<Longrightarrow> fileFetches w1 = fileFetches w"
  using extends_fileFetches [OF GetProxies_extends, of env w] by simp

lemma GetProxies_files': "GetProxies env w = (r, w1) \<Longrightarrow> files w1 = files w"
  using GetProxies_files [of env w] by simp

text \<open>The manifest: what \<open>downloadUpdateJSON\<close> does after its direct attempt.\<close>

lemma downloadUpdateJSON_direct:
  assumes "downloadWithTimeout env (buildUpdateURL repo) w = (Inr data, w1)"
  shows "downloadUpdateJSON env md repo w = (parseUpdateJSON env data, w1)"
  using assms by (simp add: downloadUpdateJSON_def Let_def)

lemma downloadUpdateJSON_no_list:
  assumes "downloadWithTimeout env (buildUpdateURL repo) w = (Inl e, w1)"
    and "GetProxies env w1 = (Inl e', w2)"
  shows "downloadUpdateJSON env md repo w = (Inl (ProxyListError e'), w2)"
  using assms by (simp add: downloadUpdateJSON_def Let_def)

lemma downloadUpdateJSON_mirrors:
  assumes "downloadWithTimeout env (buildUpdateURL repo) w = (Inl e, w1)"
    and "GetProxies env w1 = (Inr proxies, w2)"
  shows "downloadUpdateJSON env md repo w
      = updateLoop env md (buildUpdateURL repo) (sortSlice env proxies) 0 w2"
  using assms by (simp add: downloadUpdateJSON_def Let_def)

lemma downloadUpdateJSON_fileFetches:
  "fileFetches (snd (downloadUpdateJSON env md repo w)) = fileFetches w"
proof -
  obtain d w1 where d: "downloadWithTimeout env (buildUpdateURL repo) w = (d, w1)"
    by (cases "downloadWithTimeout env (buildUpdateURL repo) w")
  have f1: "fileFetches w1 = fileFetches w"
    by (rule downloadWithTimeout_fileFetches [OF d])
  show ?thesis
  proof (cases d)
    case (Inr data)
    with d f1 show ?thesis by (simp add: downloadUpdateJSON_direct)
  next
    case (Inl e)
    obtain g w2 where g: "GetProxies env w1 = (g, w2)"
      by (cases "GetProxies env w1")
    have f2: "fileFetches w2 = fileFetches w1"
      by (rule GetProxies_fileFetches [OF g])
    show ?thesis
    proof (cases g)
      case (Inl e')
      from downloadUpdateJSON_no_list [OF d [unfolded \<open>d = Inl e\<close>] g [unfolded Inl]] f1 f2
      show ?thesis by simp
    next
      case (Inr proxies)
      from downloadUpdateJSON_mirrors [OF d [unfolded \<open>d = Inl e\<close>] g [unfolded Inr]] f1 f2
      show ?thesis by (simp add: updateLoop_fileFetches)
    qed
  qed
qed

lemma updateLoop_Inr:
  assumes "fst (updateLoop env md url ps tried w) = Inr ui"
  shows "ZipURL ui \<noteq> []"
proof -
  from updateLoop_attempts [of md tried ps env w url] assms
  obtain data where "parseUpdateJSON env data = Inr ui" by auto
  then show ?thesis by (simp add: parseUpdateJSON_Inr)
qed

lemma downloadUpdateJSON_Inr:
  assumes "downloadUpdateJSON env md repo w = (Inr ui, w')"
  shows "ZipURL ui \<noteq> []"
proof -
  obtain d w1 where d: "downloadWithTimeout env (buildUpdateURL repo) w = (d, w1)"
    by (cases "downloadWithTimeout env (buildUpdateURL repo) w")
  show ?thesis
  proof (cases d)
    case (Inr data)
    from downloadUpdateJSON_direct [OF d [unfolded Inr]] assms
    have "parseUpdateJSON env data = Inr ui" by simp
    then show ?thesis by (simp add: parseUpdateJSON_Inr)
  next
    case (Inl e)
    obtain g w2 where g: "GetProxies env w1 = (g, w2)"
      by (cases "GetProxies env w1")
    show ?thesis
    proof (cases g)
      case (Inl e')
      from downloadUpdateJSON_no_list [OF d [unfolded \<open>d = Inl e\<close>] g [unfolded Inl]] assms
      show ?thesis by simp
    next
      case (Inr proxies)
      from downloadUpdateJSON_mirrors [OF d [unfolded \<open>d = Inl e\<close>] g [unfolded Inr]] assms
      have "fst (updateLoop env md (buildUpdateURL repo) (sortSlice env proxies) 0 w2) = Inr ui"
        by simp
      then show ?thesis by (rule updateLoop_Inr)
    qed
  qed
qed

text \<open>The payload: the steps of \<open>downloadModule\<close>.\<close>

lemma downloadModule_mkdir_fails:
  assumes "mkdir_download_fails env (tick w) (cacheDir md)"
  shows "downloadModule env md ui w = (Inl MkdirDownloadError, emit MkdirDownload w)"
  using assms by (simp add: downloadModule_def)

lemma downloadModule_direct:
  assumes "\<not> mkdir_download_fails env (tick w) (cacheDir md)"
    and "downloadFile env (ZipURL ui) (localPathOf env md ui) (emit MkdirDownload w) = (Inr body, w1)"
  shows "downloadModule env md ui w = (Inr (localPathOf env md ui), w1)"
  using assms by (simp add: downloadModule_def Let_def)

lemma downloadModule_canonical:
  assumes "\<not> mkdir_download_fails env (tick w) (cacheDir md)"
    and "downloadFile env (ZipURL ui) (localPathOf env md ui) (emit MkdirDownload w) = (Inl e, w1)"
    and "extractGitHubURL (ZipURL ui) = ZipURL ui"
  shows "downloadModule env md ui w
      = downloadWithProxies env md (ZipURL ui) (localPathOf env md ui) w1"
  using assms by (simp add: downloadModule_def Let_def)

lemma downloadModule_stripped_direct:
  assumes "\<not> mkdir_download_fails env (tick w) (cacheDir md)"
    and "downloadFile env (ZipURL ui) (localPathOf env md ui) (emit MkdirDownload w) = (Inl e, w1)"
    and "extractGitHubURL (ZipURL ui) \<noteq> ZipURL ui"
    and "downloadFile env (extractGitHubURL (ZipURL ui)) (localPathOf env md ui) w1 = (Inr body, w2)"
  shows "downloadModule env md ui w = (Inr (localPathOf env md ui), w2)"
  using assms by (simp add: downloadModule_def Let_def)

lemma downloadModule_stripped_mirrors:
  assumes "\<not> mkdir_download_fails env (tick w) (cacheDir md)"
    and "downloadFile env (ZipURL ui) (localPathOf env md ui) (emit MkdirDownload w) = (Inl e, w1)"
    and "extractGitHubURL (ZipURL ui) \<noteq> ZipURL ui"
    and "downloadFile env (extractGitHubURL (ZipURL ui)) (localPathOf env md ui) w1 = (Inl e2, w2)"
  shows "downloadModule env md ui w
      = downloadWithProxies env md (extractGitHubURL (ZipURL ui)) (localPathOf env md ui) w2"
  using assms by (simp add: downloadModule_def Let_def)

lemma fileFetches_MkdirDownload: "fileFetches (emit MkdirDownload w) = fileFetches w"
  by (simp add: fileFetches_emit)

lemma downloadWithProxies_no_list:
  assumes "GetProxies env w = (Inl e, w1)"
  shows "downloadWithProxies env md url path w = (Inl (ProxyListError e), w1)"
  using assms by (simp add: downloadWithProxies_def)

lemma downloadWithProxies_list:
  assumes "GetProxies env w = (Inr proxies, w1)"
  shows "downloadWithProxies env md url path w = proxyLoop env md url path (sortSlice env proxies) 0 w1"
  using assms by (simp add: downloadWithProxies_def)

section \<open>The fallback sequence of both downloads\<close>

text \<open>
  The attempts at the mirrors, for the manifest and for the payload: \<open>outs\<close> are their
  outcomes, each the answer of the environment to the request for that mirror's URL at
  its turn, the mirrors taken from the sorted list in order.
\<close>

lemma manifest_fallback:
  assumes M: "maxRetry md = 10"
    and d: "downloadWithTimeout env (buildUpdateURL repo) w = (Inl e, w1)"
    and g: "GetProxies env w1 = (Inr proxies, w2)"
    and s: "sortedBySpeed proxies (sortSlice env proxies)"
  shows "\<exists>outs. length outs \<le> 10 \<and> length outs \<le> length proxies
      \<and> (\<forall>i < length outs. sortSlice env proxies ! i \<in> set proxies
            \<and> outs ! i = httpOutcome (http env (tick w2 + i)
                            (proxyURL (sortSlice env proxies ! i) (buildUpdateURL repo))))
      \<and> fetches (snd (downloadUpdateJSON env md repo w))
          = fetches w @ (buildUpdateURL repo, Inl e)
              # zip (map (\<lambda>p. proxyURL p (buildUpdateURL repo)) (sortSlice env proxies)) outs
      \<and> (\<forall>out \<in> set (butlast outs). isl out)
      \<and> ((outs \<noteq> [] \<and> (\<exists>data. last outs = Inr data
             \<and> fst (downloadUpdateJSON env md repo w) = parseUpdateJSON env data))
         \<or> ((\<forall>out \<in> set outs. isl out) \<and> length outs = min 10 (length proxies)
             \<and> fst (downloadUpdateJSON env md repo w) = Inl AllAttemptsFailed))"
proof -
  let ?url = "buildUpdateURL repo"
  let ?ps = "sortSlice env proxies"
  note L = downloadUpdateJSON_mirrors [OF d g, of md]
  note len = sortedBySpeed_length [OF s]
  have f: "fetches w2 = fetches w @ [(?url, Inl e)]"
    using downloadWithTimeout_fetches [OF d] GetProxies_fetches [OF g] by simp
  from updateLoop_attempts [of md 0 ?ps env w2 ?url]
  obtain outs where
    o1: "length outs \<le> min (maxRetry md - 0) (length ?ps)" and
    o5: "\<forall>i < length outs. outs ! i = httpOutcome (http env (tick w2 + i) (proxyURL (?ps ! i) ?url))" and
    o2: "fetches (snd (updateLoop env md ?url ?ps 0 w2))
         = fetches w2 @ zip (map (\<lambda>p. proxyURL p ?url) ?ps) outs" and
    o3: "\<forall>out \<in> set (butlast outs). isl out" and
    o4: "(outs \<noteq> [] \<and> (\<exists>data. last outs = Inr data
            \<and> fst (updateLoop env md ?url ?ps 0 w2) = parseUpdateJSON env data))
        \<or> ((\<forall>out \<in> set outs. isl out)
            \<and> length outs = min (maxRetry md - 0) (length ?ps)
            \<and> fst (updateLoop env md ?url ?ps 0 w2) = Inl AllAttemptsFailed)"
    by blast
  have a1: "length outs \<le> 10" "length outs \<le> length proxies"
    using o1 M by (simp_all add: len)
  have a5: "\<forall>i < length outs. ?ps ! i \<in> set proxies
      \<and> outs ! i = httpOutcome (http env (tick w2 + i) (proxyURL (?ps ! i) ?url))"
  proof (intro allI impI conjI)
    fix i assume i: "i < length outs"
    with a1(2) have "i < length ?ps" by (simp add: len)
    then have "?ps ! i \<in> set ?ps" by (rule nth_mem)
    then show "?ps ! i \<in> set proxies" by (simp add: sortedBySpeed_set [OF s])
    from o5 i show "outs ! i = httpOutcome (http env (tick w2 + i) (proxyURL (?ps ! i) ?url))"
      by blast
  qed
  have a2: "fetches (snd (downloadUpdateJSON env md repo w))
          = fetches w @ (?url, Inl e) # zip (map (\<lambda>p. proxyURL p ?url) ?ps) outs"
    unfolding L o2 f by simp
  have a4: "(outs \<noteq> [] \<and> (\<exists>data. last outs = Inr data
             \<and> fst (downloadUpdateJSON env md repo w) = parseUpdateJSON env data))
         \<or> ((\<forall>out \<in> set outs. isl out) \<and> length outs = min 10 (length proxies)
             \<and> fst (downloadUpdateJSON env md repo w) = Inl AllAttemptsFailed)"
    using o4 unfolding L M by (simp add: len)
  from a1 a5 a2 o3 a4 show ?thesis by blast
qed

lemma mirrors_fallback:
  assumes M: "maxRetry md = 10"
    and g: "GetProxies env w1 = (Inr proxies, w2)"
    and s: "sortedBySpeed proxies (sortSlice env proxies)"
  shows "\<exists>outs. length outs \<le> 10 \<and> length outs \<le> length proxies
      \<and> (\<forall>i < length outs. sortSlice env proxies ! i \<in> set proxies
            \<and> outs ! i = fileOutcome env (tick w2 + i)
                            (proxyURL (sortSlice env proxies ! i) url) path)
      \<and> fileFetches (snd (downloadWithProxies env md url path w1))
          = fileFetches w1 @ zip (map (\<lambda>p. proxyURL p url) (sortSlice env proxies)) outs
      \<and> (\<forall>out \<in> set (butlast outs). isl out)
      \<and> ((outs \<noteq> [] \<and> (\<exists>body. last outs = Inr body
             \<and> fst (downloadWithProxies env md url path w1) = Inr path
             \<and> files (snd (downloadWithProxies env md url path w1)) path = Some body))
         \<or> ((\<forall>out \<in> set outs. isl out) \<and> length outs = min 10 (length proxies)
             \<and> fst (downloadWithProxies env md url path w1) = Inl AllProxyAttemptsFailed))"
proof -
  let ?ps = "sortSlice env proxies"
  note L = downloadWithProxies_list [OF g, of md url path]
  note len = sortedBySpeed_length [OF s]
  have f: "fileFetches w2 = fileFetches w1"
    by (rule GetProxies_fileFetches [OF g])
  from proxyLoop_attempts [of md 0 ?ps env w2 url path]
  obtain outs where
    o1: "length outs \<le> min (maxRetry md - 0) (length ?ps)" and
    o5: "\<forall>i < length outs. outs ! i = fileOutcome env (tick w2 + i) (proxyURL (?ps ! i) url) path" and
    o2: "fileFetches (snd (proxyLoop env md url path ?ps 0 w2))
         = fileFetches w2 @ zip (map (\<lambda>p. proxyURL p url) ?ps) outs" and
    o3: "\<forall>out \<in> set (butlast outs). isl out" and
    o4: "(outs \<noteq> [] \<and> (\<exists>body. last outs = Inr body
            \<and> fst (proxyLoop env md url path ?ps 0 w2) = Inr path
            \<and> files (snd (proxyLoop env md url path ?ps 0 w2)) path = Some body))
        \<or> ((\<forall>out \<in> set outs. isl out)
            \<and> length outs = min (maxRetry md - 0) (length ?ps)
            \<and> fst (proxyLoop env md url path ?ps 0 w2) = Inl AllProxyAttemptsFailed)"
    by blast
  have a1: "length outs \<le> 10" "length outs \<le> length proxies"
    using o1 M by (simp_all add: len)
  have a5: "\<forall>i < length outs. ?ps ! i \<in> set proxies
      \<and> outs ! i = fileOutcome env (tick w2 + i) (proxyURL (?ps ! i) url) path"
  proof (intro allI impI conjI)
    fix i assume i: "i < length outs"
    with a1(2) have "i < length ?ps" by (simp add: len)
    then have "?ps ! i \<in> set ?ps" by (rule nth_mem)
    then show "?ps ! i \<in> set proxies" by (simp add: sortedBySpeed_set [OF s])
    from o5 i show "outs ! i = fileOutcome env (tick w2 + i) (proxyURL (?ps ! i) url) path"
      by blast
  qed
  have a2: "fileFetches (snd (downloadWithProxies env md url path w1))
          = fileFetches w1 @ zip (map (\<lambda>p. proxyURL p url) ?ps) outs"
    unfolding L o2 f by simp
  have a4: "(outs \<noteq> [] \<and> (\<exists>body. last outs = Inr body
             \<and> fst (downloadWithProxies env md url path w1) = Inr path
             \<and> files (snd (downloadWithProxies env md url path w1)) path = Some body))
         \<or> ((\<forall>out \<in> set outs. isl out) \<and> length outs = min 10 (length proxies)
             \<and> fst (downloadWithProxies env md url path w1) = Inl AllProxyAttemptsFailed)"
    using o4 unfolding L M by (simp add: len)
  from a1 a5 a2 o3 a4 show ?thesis by blast
qed

lemma payload_fallback:
  assumes M: "maxRetry md = 10"
    and k: "\<not> mkdir_download_fails env (tick w) (cacheDir md)"
    and c: "extractGitHubURL (ZipURL ui) = ZipURL ui"
    and d: "downloadFile env (ZipURL ui) (localPathOf env md ui) (emit MkdirDownload w) = (Inl e, w1)"
    and g: "GetProxies env w1 = (Inr proxies, w3)"
    and s: "sortedBySpeed proxies (sortSlice env proxies)"
  shows "\<exists>outs. length outs \<le> 10 \<and> length outs \<le> length proxies
      \<and> (\<forall>i < length outs. sortSlice env proxies ! i \<in> set proxies
            \<and> outs ! i = fileOutcome env (tick w3 + i)
                            (proxyURL (sortSlice env proxies ! i) (ZipURL ui))
                            (localPathOf env md ui))
      \<and> fileFetches (snd (downloadModule env md ui w))
          = fileFetches w @ (ZipURL ui, Inl e) #
              zip (map (\<lambda>p. proxyURL p (ZipURL ui)) (sortSlice env proxies)) outs
      \<and> (\<forall>out \<in> set (butlast outs). isl out)
      \<and> ((outs \<noteq> [] \<and> (\<exists>body. last outs = Inr body
             \<and> fst (downloadModule env md ui w) = Inr (localPathOf env md ui)
             \<and> files (snd (downloadModule env md ui w)) (localPathOf env md ui) = Some body))
         \<or> ((\<forall>out \<in> set outs. isl out) \<and> length outs = min 10 (length proxies)
             \<and> fst (downloadModule env md ui w) = Inl AllProxyAttemptsFailed))"
proof -
  let ?url = "ZipURL ui"
  let ?path = "localPathOf env md ui"
  let ?ps = "sortSlice env proxies"
  have L: "downloadModule env md ui w = downloadWithProxies env md ?url ?path w1"
    by (rule downloadModule_canonical [OF k d c])
  have f: "fileFetches w1 = fileFetches w @ [(ZipURL ui, Inl e)]"
    using downloadFile_fileFetches [OF d] by (simp add: fileFetches_MkdirDownload)
  from mirrors_fallback [OF M g s, of ?url ?path]
  obtain outs where
    o1: "length outs \<le> 10" "length outs \<le> length proxies" and
    o5: "\<forall>i < length outs. ?ps ! i \<in> set proxies
          \<and> outs ! i = fileOutcome env (tick w3 + i) (proxyURL (?ps ! i) ?url) ?path" and
    o2: "fileFetches (snd (downloadWithProxies env md ?url ?path w1))
         = fileFetches w1 @ zip (map (\<lambda>p. proxyURL p ?url) ?ps) outs" and
    o3: "\<forall>out \<in> set (butlast outs). isl out" and
    o4: "(outs \<noteq> [] \<and> (\<exists>body. last outs = Inr body
            \<and> fst (downloadWithProxies env md ?url ?path w1) = Inr ?path
            \<and> files (snd (downloadWithProxies env md ?url ?path w1)) ?path = Some body))
        \<or> ((\<forall>out \<in> set outs. isl out) \<and> length outs = min 10 (length proxies)
            \<and> fst (downloadWithProxies env md ?url ?path w1) = Inl AllProxyAttemptsFailed)"
    by blast
  have a2: "fileFetches (snd (downloadModule env md ui w))
          = fileFetches w @ (ZipURL ui, Inl e) # zip (map (\<lambda>p. proxyURL p ?url) ?ps) outs"
    unfolding L o2 f by simp
  have a4: "(outs \<noteq> [] \<and> (\<exists>body. last outs = Inr body
             \<and> fst (downloadModule env md ui w) = Inr ?path
             \<and> files (snd (downloadModule env md ui w)) ?path = Some body))
         \<or> ((\<forall>out \<in> set outs. isl out) \<and> length outs = min 10 (length proxies)
             \<and> fst (downloadModule env md ui w) = Inl AllProxyAttemptsFailed)"
    using o4 unfolding L .
  from o1 o5 a2 o3 a4 show ?thesis by blast
qed

lemma stripped_fallback:
  assumes M: "maxRetry md = 10"
    and k: "\<not> mkdir_download_fails env (tick w) (cacheDir md)"
    and n: "extractGitHubURL (ZipURL ui) \<noteq> ZipURL ui"
    and d: "downloadFile env (ZipURL ui) (localPathOf env md ui) (emit MkdirDownload w) = (Inl e, w1)"
    and d2: "downloadFile env (extractGitHubURL (ZipURL ui)) (localPathOf env md ui) w1
               = (Inl e2, w2)"
    and g: "GetProxies env w2 = (Inr proxies, w3)"
    and s: "sortedBySpeed proxies (sortSlice env proxies)"
  shows "\<exists>outs. length outs \<le> 10 \<and> length outs \<le> length proxies
      \<and> (\<forall>i < length outs. sortSlice env proxies ! i \<in> set proxies
            \<and> outs ! i = fileOutcome env (tick w3 + i)
                            (proxyURL (sortSlice env proxies ! i) (extractGitHubURL (ZipURL ui)))
                            (localPathOf env md ui))
      \<and> fileFetches (snd (downloadModule env md ui w))
          = fileFetches w @ (ZipURL ui, Inl e) # (extractGitHubURL (ZipURL ui), Inl e2) #
              zip (map (\<lambda>p. proxyURL p (extractGitHubURL (ZipURL ui))) (sortSlice env proxies)) outs
      \<and> (\<forall>out \<in> set (butlast outs). isl out)
      \<and> ((outs \<noteq> [] \<and> (\<exists>body. last outs = Inr body
             \<and> fst (downloadModule env md ui w) = Inr (localPathOf env md ui)
             \<and> files (snd (downloadModule env md ui w)) (localPathOf env md ui) = Some body))
         \<or> ((\<forall>out \<in> set outs. isl out) \<and> length outs = min 10 (length proxies)
             \<and> fst (downloadModule env md ui w) = Inl AllProxyAttemptsFailed))"
proof -
  let ?url = "extractGitHubURL (ZipURL ui)"
  let ?path = "localPathOf env md ui"
  let ?ps = "sortSlice env proxies"
  have L: "downloadModule env md ui w = downloadWithProxies env md ?url ?path w2"
    by (rule downloadModule_stripped_mirrors [OF k d n d2])
  have f: "fileFetches w2 = fileFetches w @ [(ZipURL ui, Inl e), (extractGitHubURL (ZipURL ui), Inl e2)]"
    using downloadFile_fileFetches [OF d] downloadFile_fileFetches [OF d2]
    by (simp add: fileFetches_MkdirDownload)
  from mirrors_fallback [OF M g s, of ?url ?path]
  obtain outs where
    o1: "length outs \<le> 10" "length outs \<le> length proxies" and
    o5: "\<forall>i < length outs. ?ps ! i \<in> set proxies
          \<and> outs ! i = fileOutcome env (tick w3 + i) (proxyURL (?ps ! i) ?url) ?path" and
    o2: "fileFetches (snd (downloadWithProxies env md ?url ?path w2))
         = fileFetches w2 @ zip (map (\<lambda>p. proxyURL p ?url) ?ps) outs" and
    o3: "\<forall>out \<in> set (butlast outs). isl out" and
    o4: "(outs \<noteq> [] \<and> (\<exists>body. last outs = Inr body
            \<and> fst (downloadWithProxies env md ?url ?path w2) = Inr ?path
            \<and> files (snd (downloadWithProxies env md ?url ?path w2)) ?path = Some body))
        \<or> ((\<forall>out \<in> set outs. isl out) \<and> length outs = min 10 (length proxies)
            \<and> fst (downloadWithProxies env md ?url ?path w2) = Inl AllProxyAttemptsFailed)"
    by blast
  have a2: "fileFetches (snd (downloadModule env md ui w))
          = fileFetches w @ (ZipURL ui, Inl e) # (extractGitHubURL (ZipURL ui), Inl e2) # zip (map (\<lambda>p. proxyURL p ?url) ?ps) outs"
    unfolding L o2 f by simp
  have a4: "(outs \<noteq> [] \<and> (\<exists>body. last outs = Inr body
             \<and> fst (downloadModule env md ui w) = Inr ?path
             \<and> files (snd (downloadModule env md ui w)) ?path = Some body))
         \<or> ((\<forall>out \<in> set outs. isl out) \<and> length outs = min 10 (length proxies)
             \<and> fst (downloadModule env md ui w) = Inl AllProxyAttemptsFailed)"
    using o4 unfolding L .
  from o1 o5 a2 o3 a4 show ?thesis by blast
qed

section \<open>The concrete inputs evaluated\<close>

lemma sample_maxRetry: "maxRetry (NewModuleDownloader dir) = 10"
  by (simp add: NewModuleDownloader_def)

lemma sample_cache_valid:
  assumes "cache w = Some b" "now w = 5"
  shows "isCacheValid (fourthEnv k) w"
  unfolding isCacheValid_iff using assms
  by (simp add: fourthEnv_def deadEnv_def mirrorCache_def Since_def Sub_def
      cacheValidDuration_def Hour_def maxDuration_def minDuration_def)

lemma sample_GetProxies:
  assumes "cache w = Some b" "now w = 5"
  shows "GetProxies (fourthEnv k) w = (Inr fourMirrors, w)"
proof -
  have "loadFromCache (fourthEnv k) w = Inr fourMirrors"
    using assms(1)
    by (simp add: loadFromCache_def readCacheFile_def fourthEnv_def deadEnv_def mirrorCache_def)
  with sample_cache_valid [OF assms] show ?thesis
    by (simp add: GetProxies_def)
qed

lemma sample_sorted:
  "sortSlice (fourthEnv k) fourMirrors
    = [mirror ''m1/'' 10 3, mirror ''m2'' 10 2, mirror ''m3/'' 10 1, mirror ''m4'' 10 0]"
  by (simp add: fourthEnv_def deadEnv_def fourMirrors_def mirror_def)

lemma sample_sortedBySpeed: "sortedBySpeed fourMirrors (sortSlice (fourthEnv k) fourMirrors)"
  by (simp add: fourthEnv_def deadEnv_def sortedBySpeed_sort_key)

lemma sample_direct_fails:
  "downloadWithTimeout (fourthEnv 3) url cachedWorld
      = (Inl TransportError, emit (Fetch url (Inl TransportError)) cachedWorld)"
  by (simp add: downloadWithTimeout_eq fourthEnv_def deadEnv_def tick_def cachedWorld_def
      freshWorld_def httpOutcome_def)

lemma sample_mirrors:
  "GetProxies (fourthEnv k) (emit e cachedWorld) = (Inr fourMirrors, emit e cachedWorld)"
  by (rule sample_GetProxies [of _ "''c''"]) (simp_all add: emit_def cachedWorld_def freshWorld_def)

lemma sample_manifest_run:
  "fetches (snd (downloadUpdateJSON (fourthEnv 3) (NewModuleDownloader ''d'') ''a/b''
       cachedWorld))
   = [(buildUpdateURL ''a/b'', Inl TransportError),
      (''m1/'' @ buildUpdateURL ''a/b'', Inl TransportError),
      (''m2/'' @ buildUpdateURL ''a/b'', Inl TransportError),
      (''m3/'' @ buildUpdateURL ''a/b'', Inr ''z'')]"
  unfolding downloadUpdateJSON_mirrors [OF sample_direct_fails sample_mirrors] sample_sorted
  by (simp add: downloadWithTimeout_eq emit_def NewModuleDownloader_def
      proxyURL_def TrimSuffix_def HasSuffix_def mirror_def httpOutcome_def
      fourthEnv_def deadEnv_def tick_def cachedWorld_def freshWorld_def fetches_def)

lemma sample_manifest_result:
  "fst (downloadUpdateJSON (fourthEnv 3) (NewModuleDownloader ''d'') ''a/b'' cachedWorld)
   = Inr plainInfo"
  unfolding downloadUpdateJSON_mirrors [OF sample_direct_fails sample_mirrors] sample_sorted
  by (simp add: downloadWithTimeout_eq emit_def NewModuleDownloader_def
      httpOutcome_def parseUpdateJSON_def plainInfo_def
      fourthEnv_def deadEnv_def tick_def cachedWorld_def freshWorld_def)

lemma sample_mkdir: "\<not> mkdir_download_fails (fourthEnv k) n dir"
  by (simp add: fourthEnv_def deadEnv_def)

lemma sample_plain: "extractGitHubURL (ZipURL plainInfo) = ZipURL plainInfo"
  by (simp add: extractGitHubURL_def prefixes_def HasPrefix_def plainInfo_def)

lemma sample_file_fails:
  "downloadFile (fourthEnv 99) url path (emit MkdirDownload cachedWorld)
      = (Inl TransportError,
         emit (FetchFile url path (Inl TransportError)) (emit MkdirDownload cachedWorld))"
  by (simp add: downloadFile_def fourthEnv_def deadEnv_def tick_def emit_def cachedWorld_def
      freshWorld_def)

lemma sample_mirrors2:
  "GetProxies (fourthEnv k) (emit e (emit e' cachedWorld))
     = (Inr fourMirrors, emit e (emit e' cachedWorld))"
  by (rule sample_GetProxies [of _ "''c''"]) (simp_all add: emit_def cachedWorld_def freshWorld_def)

lemma sample_wrapped: "extractGitHubURL (ZipURL wrappedInfo) = ''u''"
proof -
  have "''https://ghproxy.cc/'' \<in> set prefixes" by (simp add: prefixes_def)
  from extractGitHubURL_strip [OF this, of "''u''"] show ?thesis
    by (simp add: wrappedInfo_def)
qed

lemma sample_wrapped_differs: "ZipURL wrappedInfo \<noteq> ''u''"
  by (simp add: wrappedInfo_def)

lemma sample_file_succeeds:
  "downloadFile (fourthEnv 1) url path (emit MkdirDownload cachedWorld)
      = (Inr ''z'',
         emit (FetchFile url path (Inr ''z''))
           ((emit MkdirDownload cachedWorld)\<lparr>files := (files (emit MkdirDownload cachedWorld))(path \<mapsto> ''z'')\<rparr>))"
  by (simp add: downloadFile_def Let_def fourthEnv_def deadEnv_def tick_def emit_def
      cachedWorld_def freshWorld_def)

lemma sample_wrapped_success:
  "downloadModule (fourthEnv 1) (NewModuleDownloader ''d'') wrappedInfo cachedWorld
     = (Inr (localPathOf (fourthEnv 1) (NewModuleDownloader ''d'') wrappedInfo),
        emit (FetchFile (ZipURL wrappedInfo)
                (localPathOf (fourthEnv 1) (NewModuleDownloader ''d'') wrappedInfo) (Inr ''z''))
          ((emit MkdirDownload cachedWorld)\<lparr>files := (files (emit MkdirDownload cachedWorld))
             (localPathOf (fourthEnv 1) (NewModuleDownloader ''d'') wrappedInfo \<mapsto> ''z'')\<rparr>))"
  by (rule downloadModule_direct [OF sample_mkdir sample_file_succeeds])

lemma sample_second_fails:
  "downloadFile (fourthEnv 99) url path (emit e (emit e' cachedWorld))
      = (Inl TransportError,
         emit (FetchFile url path (Inl TransportError)) (emit e (emit e' cachedWorld)))"
  by (simp add: downloadFile_def fourthEnv_def deadEnv_def tick_def emit_def cachedWorld_def
      freshWorld_def)

lemma sample_mirrors3:
  "GetProxies (fourthEnv k) (emit e (emit e' (emit e'' cachedWorld)))
     = (Inr fourMirrors, emit e (emit e' (emit e'' cachedWorld)))"
  by (rule sample_GetProxies [of _ "''c''"]) (simp_all add: emit_def cachedWorld_def freshWorld_def)

lemma sample_wrapped_all_fail:
  "map fst (fileFetches (snd (downloadModule (fourthEnv 99) (NewModuleDownloader ''d'')
        wrappedInfo cachedWorld)))
     = [ZipURL wrappedInfo, ''u'', ''m1/u'', ''m2/u'', ''m3/u'', ''m4/u'']"
proof -
  have n: "extractGitHubURL (ZipURL wrappedInfo) \<noteq> ZipURL wrappedInfo"
    using sample_wrapped sample_wrapped_differs by simp
  show ?thesis
    unfolding downloadModule_stripped_mirrors [OF sample_mkdir sample_file_fails n
        sample_second_fails] sample_wrapped downloadWithProxies_list [OF sample_mirrors3]
      sample_sorted
    by (simp add: downloadFile_def fourthEnv_def deadEnv_def tick_def emit_def cachedWorld_def
        freshWorld_def NewModuleDownloader_def proxyURL_def TrimSuffix_def HasSuffix_def
        mirror_def fileFetches_def)
qed

text \<open>Two runs in which the request made after four earlier actions succeeds.\<close>

lemma sample_file_fails4:
  "downloadFile (fourthEnv 4) url path (emit MkdirDownload cachedWorld)
      = (Inl TransportError,
         emit (FetchFile url path (Inl TransportError)) (emit MkdirDownload cachedWorld))"
  by (simp add: downloadFile_def fourthEnv_def deadEnv_def tick_def emit_def cachedWorld_def
      freshWorld_def)

lemma sample_second_fails4:
  "downloadFile (fourthEnv 4) url path (emit e (emit e' cachedWorld))
      = (Inl TransportError,
         emit (FetchFile url path (Inl TransportError)) (emit e (emit e' cachedWorld)))"
  by (simp add: downloadFile_def fourthEnv_def deadEnv_def tick_def emit_def cachedWorld_def
      freshWorld_def)

lemma sample_payload_run:
  "fileFetches (snd (downloadModule (fourthEnv 4) (NewModuleDownloader ''d'') plainInfo
       cachedWorld))
     = [(''u'', Inl TransportError), (''m1/u'', Inl TransportError),
        (''m2/u'', Inl TransportError), (''m3/u'', Inr ''z'')]
   \<and> fst (downloadModule (fourthEnv 4) (NewModuleDownloader ''d'') plainInfo cachedWorld)
     = Inr (localPathOf (fourthEnv 4) (NewModuleDownloader ''d'') plainInfo)
   \<and> files (snd (downloadModule (fourthEnv 4) (NewModuleDownloader ''d'') plainInfo cachedWorld))
       (localPathOf (fourthEnv 4) (NewModuleDownloader ''d'') plainInfo)
     = Some ''z''"
  unfolding downloadModule_canonical [OF sample_mkdir sample_file_fails4 sample_plain]
    downloadWithProxies_list [OF sample_mirrors2] sample_sorted
  by (simp add: downloadFile_def Let_def fourthEnv_def deadEnv_def tick_def emit_def
      cachedWorld_def freshWorld_def NewModuleDownloader_def proxyURL_def TrimSuffix_def
      HasSuffix_def mirror_def fileFetches_def plainInfo_def)

lemma sample_wrapped_run:
  "fileFetches (snd (downloadModule (fourthEnv 4) (NewModuleDownloader ''d'') wrappedInfo
       cachedWorld))
     = [(ZipURL wrappedInfo, Inl TransportError), (''u'', Inl TransportError),
        (''m1/u'', Inl TransportError), (''m2/u'', Inr ''z'')]
   \<and> fst (downloadModule (fourthEnv 4) (NewModuleDownloader ''d'') wrappedInfo cachedWorld)
     = Inr (localPathOf (fourthEnv 4) (NewModuleDownloader ''d'') wrappedInfo)"
proof -
  have n: "extractGitHubURL (ZipURL wrappedInfo) \<noteq> ZipURL wrappedInfo"
    using sample_wrapped sample_wrapped_differs by simp
  show ?thesis
    unfolding downloadModule_stripped_mirrors [OF sample_mkdir sample_file_fails4 n
        sample_second_fails4] sample_wrapped downloadWithProxies_list [OF sample_mirrors3]
      sample_sorted
    by (simp add: downloadFile_def Let_def fourthEnv_def deadEnv_def tick_def emit_def
        cachedWorld_def freshWorld_def NewModuleDownloader_def proxyURL_def TrimSuffix_def
        HasSuffix_def mirror_def fileFetches_def)
qed

lemma sample_repo: "normalizeRepoName ''a/b'' = ''a/b''"
  by (simp add: normalizeRepoName_def ReplaceAll_def Let_def)

lemma sample_manifest_without_zip:
  "downloadWithTimeout noZipEnv url freshWorld
     = (Inr ''j'', emit (Fetch url (Inr ''j'')) freshWorld)"
  by (simp add: downloadWithTimeout_eq noZipEnv_def deadEnv_def httpOutcome_def)

section \<open>Facts about \<open>handleGetCommand\<close>\<close>

lemma handleGetCommand_update_failed:
  assumes "normalizeRepoName repoArg \<noteq> []"
    and "downloadUpdateJSON env (NewModuleDownloader dir) (normalizeRepoName repoArg) w = (Inl e, w1)"
  shows "handleGetCommand env dir repoArg w = (UpdateFailed e, w1)"
  using assms by (simp add: handleGetCommand_def Let_def)

section \<open>Claims about the URL normalizer\<close>

text \<open>
  C5. \<open>extractGitHubURL\<close> is a function of its argument alone, over the fixed list
  \<open>prefixes\<close>. A URL that starts with one of the known prefixes comes back with exactly
  that prefix removed (the bytes after it, untouched); a URL that starts with none of
  them, also one that shares only part of a prefix, comes back unchanged.
\<close>

theorem extractGitHubURL_spec:
  "(\<forall>p \<in> set prefixes. HasPrefix url p \<longrightarrow>
      extractGitHubURL url = drop (length p) url \<and> url = p @ extractGitHubURL url)
   \<and> ((\<forall>p \<in> set prefixes. \<not> HasPrefix url p) \<longrightarrow> extractGitHubURL url = url)"
proof (intro conjI ballI impI)
  fix p assume p: "p \<in> set prefixes" "HasPrefix url p"
  then obtain u where u: "url = p @ u" by (auto simp: HasPrefix_iff)
  have s: "extractGitHubURL (p @ u) = u"
    by (rule extractGitHubURL_strip [OF p(1)])
  show "extractGitHubURL url = drop (length p) url"
    unfolding u s by simp
  show "url = p @ extractGitHubURL url"
    unfolding u s by (rule refl)
next
  assume "\<forall>p \<in> set prefixes. \<not> HasPrefix url p"
  then show "extractGitHubURL url = url"
    unfolding extractGitHubURL_def by (rule extractLoop_no_match)
qed

theorem extractGitHubURL_spec_witness:
  "''https://mirror.ghproxy.com/'' \<in> set prefixes
   \<and> HasPrefix (''https://mirror.ghproxy.com/'' @ ''https://github.com/a/b.zip'')
         ''https://mirror.ghproxy.com/''
   \<and> extractGitHubURL (''https://mirror.ghproxy.com/'' @ ''https://github.com/a/b.zip'')
       = ''https://github.com/a/b.zip''
   \<and> \<not> (\<exists>p \<in> set prefixes. HasPrefix ''https://ghproxy.c'' p)
   \<and> extractGitHubURL ''https://ghproxy.c'' = ''https://ghproxy.c''"
proof (intro conjI)
  let ?p = "''https://mirror.ghproxy.com/''"
  let ?u = "''https://github.com/a/b.zip''"
  show m: "?p \<in> set prefixes" by (simp add: prefixes_def)
  show h: "HasPrefix (?p @ ?u) ?p" by (rule HasPrefix_append)
  have "extractGitHubURL (?p @ ?u) = drop (length ?p) (?p @ ?u)"
    by (rule extractGitHubURL_spec [of "?p @ ?u", THEN conjunct1, THEN bspec, OF m,
          THEN mp, OF h, THEN conjunct1])
  also have "\<dots> = ?u" by (rule drop_prefix_append)
  finally show "extractGitHubURL (?p @ ?u) = ?u" .
  have n: "\<forall>p \<in> set prefixes. \<not> HasPrefix ''https://ghproxy.c'' p"
    by (simp add: prefixes_def HasPrefix_def)
  then show "\<not> (\<exists>p \<in> set prefixes. HasPrefix ''https://ghproxy.c'' p)"
    by blast
  show "extractGitHubURL ''https://ghproxy.c'' = ''https://ghproxy.c''"
    by (rule extractGitHubURL_spec [of "''https://ghproxy.c''", THEN conjunct2, THEN mp, OF n])
qed

text \<open>
  C10. One application strips one layer. For known prefixes \<open>p1\<close>, \<open>p2\<close> and any \<open>u\<close>:
  a singly wrapped URL \<open>p2 @ u\<close> gives \<open>u\<close>; a doubly wrapped URL \<open>p1 @ p2 @ u\<close> gives
  \<open>p2 @ u\<close>, where the inner prefix survives; a second application gives \<open>u\<close>, which is a
  different string, so the function is not idempotent on such inputs.
\<close>

theorem extractGitHubURL_one_layer:
  "\<forall>p1 \<in> set prefixes. \<forall>p2 \<in> set prefixes.
     extractGitHubURL (p2 @ u) = u
     \<and> extractGitHubURL (p1 @ p2 @ u) = p2 @ u
     \<and> extractGitHubURL (extractGitHubURL (p1 @ p2 @ u)) = u
     \<and> extractGitHubURL (extractGitHubURL (p1 @ p2 @ u)) \<noteq> extractGitHubURL (p1 @ p2 @ u)"
proof (intro ballI conjI)
  fix p1 p2 assume p: "p1 \<in> set prefixes" "p2 \<in> set prefixes"
  show a: "extractGitHubURL (p2 @ u) = u"
    by (rule extractGitHubURL_strip [OF p(2)])
  show b: "extractGitHubURL (p1 @ p2 @ u) = p2 @ u"
    by (rule extractGitHubURL_strip [OF p(1)])
  show "extractGitHubURL (extractGitHubURL (p1 @ p2 @ u)) = u"
    unfolding b by (rule a)
  have d: "u \<noteq> p2 @ u"
    using prefixes_nonempty [OF p(2)] by simp
  show "extractGitHubURL (extractGitHubURL (p1 @ p2 @ u)) \<noteq> extractGitHubURL (p1 @ p2 @ u)"
    unfolding b a by (rule d)
qed

theorem extractGitHubURL_one_layer_witness:
  "''https://ghproxy.cc/'' \<in> set prefixes \<and> ''https://ghproxy.cn/'' \<in> set prefixes
   \<and> extractGitHubURL
         (''https://ghproxy.cc/'' @ ''https://ghproxy.cn/'' @ ''https://github.com/a/b.zip'')
       = ''https://ghproxy.cn/'' @ ''https://github.com/a/b.zip''
   \<and> extractGitHubURL (extractGitHubURL
         (''https://ghproxy.cc/'' @ ''https://ghproxy.cn/'' @ ''https://github.com/a/b.zip''))
       = ''https://github.com/a/b.zip''"
proof (intro conjI)
  show m1: "''https://ghproxy.cc/'' \<in> set prefixes" by (simp add: prefixes_def)
  show m2: "''https://ghproxy.cn/'' \<in> set prefixes" by (simp add: prefixes_def)
  note r = extractGitHubURL_one_layer [of "''https://github.com/a/b.zip''",
      THEN bspec, OF m1, THEN bspec, OF m2]
  show "extractGitHubURL
         (''https://ghproxy.cc/'' @ ''https://ghproxy.cn/'' @ ''https://github.com/a/b.zip'')
       = ''https://ghproxy.cn/'' @ ''https://github.com/a/b.zip''"
    by (rule r [THEN conjunct2, THEN conjunct1])
  show "extractGitHubURL (extractGitHubURL
         (''https://ghproxy.cc/'' @ ''https://ghproxy.cn/'' @ ''https://github.com/a/b.zip''))
       = ''https://github.com/a/b.zip''"
    by (rule r [THEN conjunct2, THEN conjunct2, THEN conjunct1])
qed

section \<open>Claims about the proxy manager\<close>

text \<open>
  C2. Let \<open>a = Since w (CacheTime c)\<close> be the age of the snapshot \<open>c\<close> decoded from the cache
  file. If \<open>a\<close> is at most ten hours, \<open>GetProxies\<close> returns exactly \<open>CacheData c\<close>, in the
  cached order, and the state, hence the log of network calls, is unchanged. If the file
  is absent, does not decode, or \<open>a\<close> exceeds ten hours, the run adds exactly one network
  call, the call to the directory service, and when that call answers 200 with a body
  that decodes to a response with code 200, the records returned are those of the
  response.
\<close>

theorem GetProxies_cache_policy:
  "(\<forall>data c. cache w = Some data \<and> unmarshalCache env data = Some c
        \<and> Since w (CacheTime c) \<le> cacheValidDuration \<longrightarrow>
      GetProxies env w = (Inr (CacheData c), w)
      \<and> netCalls (snd (GetProxies env w)) = netCalls w)
   \<and> (cache w = None
        \<or> (\<exists>data. cache w = Some data \<and> unmarshalCache env data = None)
        \<or> (\<exists>data c. cache w = Some data \<and> unmarshalCache env data = Some c
              \<and> Since w (CacheTime c) > cacheValidDuration) \<longrightarrow>
      netCalls (snd (GetProxies env w)) = netCalls w + 1
      \<and> apiCalls (snd (GetProxies env w)) = apiCalls w + 1
      \<and> (\<forall>body r. http env (tick w) githubProxyAPI = Response 200 body True
            \<and> unmarshalResponse env body = Some r \<and> Code r = 200 \<longrightarrow>
          fst (GetProxies env w) = Inr (Data r)))"
proof (intro conjI allI impI)
  fix data c
  assume h: "cache w = Some data \<and> unmarshalCache env data = Some c
    \<and> Since w (CacheTime c) \<le> cacheValidDuration"
  then have v: "isCacheValid env w" unfolding isCacheValid_iff by blast
  from h have "loadFromCache env w = Inr (CacheData c)"
    by (simp add: loadFromCache_def readCacheFile_def)
  with v show g: "GetProxies env w = (Inr (CacheData c), w)"
    by (simp add: GetProxies_def)
  show "netCalls (snd (GetProxies env w)) = netCalls w"
    unfolding g by simp
next
  assume h: "cache w = None
        \<or> (\<exists>data. cache w = Some data \<and> unmarshalCache env data = None)
        \<or> (\<exists>data c. cache w = Some data \<and> unmarshalCache env data = Some c
              \<and> Since w (CacheTime c) > cacheValidDuration)"
  then have "\<not> isCacheValid env w" unfolding isCacheValid_iff by auto
  then have g: "GetProxies env w = fetchFromAPI env w"
    by (simp add: GetProxies_def)
  show "netCalls (snd (GetProxies env w)) = netCalls w + 1"
    unfolding g by (rule fetchFromAPI_netCalls)
  show "apiCalls (snd (GetProxies env w)) = apiCalls w + 1"
    unfolding g by (rule fetchFromAPI_apiCalls)
  fix body r
  assume a: "http env (tick w) githubProxyAPI = Response 200 body True
            \<and> unmarshalResponse env body = Some r \<and> Code r = 200"
  have "fetchFromAPI env w = (Inr (Data r), snd (saveToCache env r (emit ApiCall w)))"
    by (rule fetchFromAPI_good [OF a [THEN conjunct1] a [THEN conjunct2, THEN conjunct1]
          a [THEN conjunct2, THEN conjunct2]])
  then show "fst (GetProxies env w) = Inr (Data r)"
    unfolding g by simp
qed

theorem GetProxies_cache_policy_witness:
  "cache cachedWorld = Some ''c'' \<and> unmarshalCache cacheEnv ''c'' = Some okCache
   \<and> Since cachedWorld (CacheTime okCache) \<le> cacheValidDuration
   \<and> GetProxies cacheEnv cachedWorld = (Inr (CacheData okCache), cachedWorld)
   \<and> cache freshWorld = None
   \<and> apiCalls (snd (GetProxies apiEnv freshWorld)) = apiCalls freshWorld + 1
   \<and> http apiEnv (tick freshWorld) githubProxyAPI = Response 200 ''b'' True
   \<and> unmarshalResponse apiEnv ''b'' = Some okResponse \<and> Code okResponse = 200
   \<and> fst (GetProxies apiEnv freshWorld) = Inr (Data okResponse)"
proof (intro conjI)
  show h1: "cache cachedWorld = Some ''c''"
    by (simp add: cachedWorld_def freshWorld_def)
  show h2: "unmarshalCache cacheEnv ''c'' = Some okCache"
    by (simp add: cacheEnv_def deadEnv_def)
  show h3: "Since cachedWorld (CacheTime okCache) \<le> cacheValidDuration"
    by (simp add: Since_def Sub_def cachedWorld_def freshWorld_def okCache_def
        cacheValidDuration_def Hour_def maxDuration_def minDuration_def)
  from GetProxies_cache_policy [of cachedWorld cacheEnv] h1 h2 h3
  show "GetProxies cacheEnv cachedWorld = (Inr (CacheData okCache), cachedWorld)"
    by blast
  show n: "cache freshWorld = None"
    by (simp add: freshWorld_def)
  from GetProxies_cache_policy [of freshWorld apiEnv] n
  show "apiCalls (snd (GetProxies apiEnv freshWorld)) = apiCalls freshWorld + 1"
    by blast
  show a1: "http apiEnv (tick freshWorld) githubProxyAPI = Response 200 ''b'' True"
    by (simp add: apiEnv_def deadEnv_def)
  show a2: "unmarshalResponse apiEnv ''b'' = Some okResponse"
    by (simp add: apiEnv_def deadEnv_def)
  show a3: "Code okResponse = 200"
    by (simp add: okResponse_def)
  from GetProxies_cache_policy [of freshWorld apiEnv] n a1 a2 a3
  show "fst (GetProxies apiEnv freshWorld) = Inr (Data okResponse)"
    by blast
qed

text \<open>
  C7. When the directory service answers 200 with a body that decodes to a response \<open>r\<close>
  with code 200, and saving the snapshot fails (the directory cannot be created, the
  snapshot cannot be encoded, or the file cannot be written), \<open>fetchFromAPI\<close> still
  returns the records \<open>Data r\<close> of the response without an error, and so does
  \<open>GetProxies\<close> whenever it takes that path.
\<close>

theorem fetchFromAPI_persist_failure:
  assumes "http env (tick w) githubProxyAPI = Response 200 body True"
    and "unmarshalResponse env body = Some r" and "Code r = 200"
    and "fst (saveToCache env r (emit ApiCall w)) = Some err"
  shows "fst (fetchFromAPI env w) = Inr (Data r)
    \<and> (\<not> isCacheValid env w \<longrightarrow> fst (GetProxies env w) = Inr (Data r))"
proof -
  have f: "fetchFromAPI env w = (Inr (Data r), snd (saveToCache env r (emit ApiCall w)))"
    by (rule fetchFromAPI_good [OF assms(1-3)])
  then show ?thesis by (simp add: GetProxies_def)
qed

theorem fetchFromAPI_persist_failure_witness:
  "http apiEnv (tick freshWorld) githubProxyAPI = Response 200 ''b'' True
   \<and> unmarshalResponse apiEnv ''b'' = Some okResponse \<and> Code okResponse = 200
   \<and> fst (saveToCache apiEnv okResponse (emit ApiCall freshWorld)) = Some MkdirCacheError
   \<and> fst (fetchFromAPI apiEnv freshWorld) = Inr (Data okResponse)
   \<and> \<not> isCacheValid apiEnv freshWorld
   \<and> fst (GetProxies apiEnv freshWorld) = Inr (Data okResponse)"
proof (intro conjI)
  show a1: "http apiEnv (tick freshWorld) githubProxyAPI = Response 200 ''b'' True"
    by (simp add: apiEnv_def deadEnv_def)
  show a2: "unmarshalResponse apiEnv ''b'' = Some okResponse"
    by (simp add: apiEnv_def deadEnv_def)
  show a3: "Code okResponse = 200"
    by (simp add: okResponse_def)
  show a4: "fst (saveToCache apiEnv okResponse (emit ApiCall freshWorld)) = Some MkdirCacheError"
    by (simp add: saveToCache_def apiEnv_def deadEnv_def)
  note t = fetchFromAPI_persist_failure [OF a1 a2 a3 a4]
  show "fst (fetchFromAPI apiEnv freshWorld) = Inr (Data okResponse)"
    by (rule t [THEN conjunct1])
  show v: "\<not> isCacheValid apiEnv freshWorld"
    by (simp add: isCacheValid_iff freshWorld_def)
  show "fst (GetProxies apiEnv freshWorld) = Inr (Data okResponse)"
    by (rule t [THEN conjunct2, THEN mp, OF v])
qed

text \<open>
  C8, as stated, fails. "Clearing when no cache file exists succeeds without error" holds
  only when \<open>os.Stat\<close> itself reports that the file does not exist. In \<open>statEnv\<close> there is
  no cache file and \<open>os.Stat\<close> is refused: \<open>fileExists\<close> answers true, \<open>os.Remove\<close> is run on a
  file that is not there, and \<open>ClearCache\<close> returns its error.
\<close>

theorem ClearCache_absent_file_error:
  "cache freshWorld = None
   \<and> stat_fails statEnv (tick freshWorld)
   \<and> fileExists statEnv freshWorld
   \<and> ClearCache statEnv freshWorld = (Some RemoveError, emit RemoveCache freshWorld)"
  by (simp add: ClearCache_def fileExists_def statEnv_def deadEnv_def freshWorld_def)

text \<open>
  C8, amended. Clearing when no cache file exists and \<open>os.Stat\<close> reports so returns no
  error and changes nothing; when no cache file exists and \<open>os.Stat\<close> fails for another
  reason, the error of \<open>os.Remove\<close> is returned. Clearing an existing file, when the removal
  itself succeeds, returns no error and leaves no cache file; when \<open>os.Remove\<close> fails,
  the error is returned and the file stays. Whenever a clear has returned no error, the
  cache file is gone; a second clear again returns no error and changes nothing, unless
  \<open>os.Stat\<close> fails then; and the next \<open>GetProxies\<close> does not find a valid cache: it runs
  \<open>fetchFromAPI\<close> and makes exactly one call to the directory service.
\<close>

theorem ClearCache_idempotent:
  "(cache w = None \<and> \<not> stat_fails env (tick w) \<longrightarrow> ClearCache env w = (None, w))
   \<and> (cache w = None \<and> stat_fails env (tick w) \<longrightarrow>
        fst (ClearCache env w) = Some RemoveError \<and> cache (snd (ClearCache env w)) = None)
   \<and> (cache w \<noteq> None \<and> \<not> remove_fails env (tick w) \<longrightarrow>
        fst (ClearCache env w) = None \<and> cache (snd (ClearCache env w)) = None)
   \<and> (cache w \<noteq> None \<and> remove_fails env (tick w) \<longrightarrow>
        fst (ClearCache env w) = Some RemoveError \<and> cache (snd (ClearCache env w)) = cache w)
   \<and> (fst (ClearCache env w) = None \<longrightarrow>
        cache (snd (ClearCache env w)) = None
        \<and> (\<not> stat_fails env (tick (snd (ClearCache env w))) \<longrightarrow>
             ClearCache env (snd (ClearCache env w)) = (None, snd (ClearCache env w)))
        \<and> \<not> isCacheValid env (snd (ClearCache env w))
        \<and> GetProxies env (snd (ClearCache env w)) = fetchFromAPI env (snd (ClearCache env w))
        \<and> apiCalls (snd (GetProxies env (snd (ClearCache env w))))
            = apiCalls (snd (ClearCache env w)) + 1)"
proof (intro conjI impI)
  assume "cache w = None \<and> \<not> stat_fails env (tick w)"
  then show "ClearCache env w = (None, w)"
    by (simp add: ClearCache_def fileExists_def)
next
  assume h: "cache w = None \<and> stat_fails env (tick w)"
  then show "fst (ClearCache env w) = Some RemoveError"
    by (simp add: ClearCache_def fileExists_def)
  from h show "cache (snd (ClearCache env w)) = None"
    by (simp add: ClearCache_def fileExists_def emit_def)
next
  assume h: "cache w \<noteq> None \<and> \<not> remove_fails env (tick w)"
  then show "fst (ClearCache env w) = None"
    by (simp add: ClearCache_def fileExists_def)
  from h show "cache (snd (ClearCache env w)) = None"
    by (simp add: ClearCache_def fileExists_def emit_def)
next
  assume h: "cache w \<noteq> None \<and> remove_fails env (tick w)"
  then show "fst (ClearCache env w) = Some RemoveError"
    by (simp add: ClearCache_def fileExists_def)
  from h show "cache (snd (ClearCache env w)) = cache w"
    by (simp add: ClearCache_def fileExists_def emit_def)
next
  assume ok: "fst (ClearCache env w) = None"
  then show c: "cache (snd (ClearCache env w)) = None"
    by (simp add: ClearCache_def fileExists_def emit_def split: if_splits)
  from c show v: "\<not> isCacheValid env (snd (ClearCache env w))"
    by (simp add: isCacheValid_iff)
  then show g: "GetProxies env (snd (ClearCache env w)) = fetchFromAPI env (snd (ClearCache env w))"
    by (simp add: GetProxies_def)
  show "apiCalls (snd (GetProxies env (snd (ClearCache env w))))
            = apiCalls (snd (ClearCache env w)) + 1"
    unfolding g by (rule fetchFromAPI_apiCalls)
  assume "\<not> stat_fails env (tick (snd (ClearCache env w)))"
  with c show "ClearCache env (snd (ClearCache env w)) = (None, snd (ClearCache env w))"
    by (simp add: ClearCache_def [of env "snd (ClearCache env w)"] fileExists_def)
qed

theorem ClearCache_idempotent_witness:
  "cache freshWorld = None \<and> \<not> stat_fails deadEnv (tick freshWorld)
   \<and> ClearCache deadEnv freshWorld = (None, freshWorld)
   \<and> cache cachedWorld \<noteq> None \<and> \<not> remove_fails deadEnv (tick cachedWorld)
   \<and> fst (ClearCache deadEnv cachedWorld) = None
   \<and> cache (snd (ClearCache deadEnv cachedWorld)) = None
   \<and> \<not> stat_fails deadEnv (tick (snd (ClearCache deadEnv cachedWorld)))
   \<and> ClearCache deadEnv (snd (ClearCache deadEnv cachedWorld))
       = (None, snd (ClearCache deadEnv cachedWorld))
   \<and> apiCalls (snd (GetProxies deadEnv (snd (ClearCache deadEnv cachedWorld))))
       = apiCalls (snd (ClearCache deadEnv cachedWorld)) + 1"
proof (intro conjI)
  show n: "cache freshWorld = None"
    by (simp add: freshWorld_def)
  show s: "\<not> stat_fails deadEnv (tick freshWorld)"
    by (simp add: deadEnv_def)
  from ClearCache_idempotent [of freshWorld deadEnv] n s
  show "ClearCache deadEnv freshWorld = (None, freshWorld)" by blast
  show p: "cache cachedWorld \<noteq> None"
    by (simp add: cachedWorld_def freshWorld_def)
  show r: "\<not> remove_fails deadEnv (tick cachedWorld)"
    by (simp add: deadEnv_def)
  from ClearCache_idempotent [of cachedWorld deadEnv] p r
  show ok: "fst (ClearCache deadEnv cachedWorld) = None" by blast
  from ClearCache_idempotent [of cachedWorld deadEnv] ok
  show "cache (snd (ClearCache deadEnv cachedWorld)) = None" by blast
  show s2: "\<not> stat_fails deadEnv (tick (snd (ClearCache deadEnv cachedWorld)))"
    by (simp add: deadEnv_def)
  from ClearCache_idempotent [of cachedWorld deadEnv] ok s2
  show "ClearCache deadEnv (snd (ClearCache deadEnv cachedWorld))
       = (None, snd (ClearCache deadEnv cachedWorld))" by blast
  from ClearCache_idempotent [of cachedWorld deadEnv] ok
  show "apiCalls (snd (GetProxies deadEnv (snd (ClearCache deadEnv cachedWorld))))
       = apiCalls (snd (ClearCache deadEnv cachedWorld)) + 1" by blast
qed

text \<open>
  C9. For a slice that is not empty, the selection returns a pointer to one of its
  elements and never \<open>nil\<close>, whatever the scoring function gives: every score may be
  negative. The guard starts with \<open>bestScore = -1\<close>, so the first record is taken at
  once. The same holds for \<open>GetBestProxy\<close> on the list that \<open>GetProxies\<close> returned.
\<close>

theorem best_returns_element:
  "proxies \<noteq> [] \<longrightarrow>
     (\<exists>p. best sc proxies = Inr (Some p) \<and> p \<in> set proxies)
     \<and> bestLoop sc proxies 0 None (- 1)
         = bestLoop sc (tl proxies) 1 (Some 0) (sc (hd proxies))
     \<and> (\<forall>env w w1. GetProxies env w = (Inr proxies, w1) \<longrightarrow>
           (\<exists>p. GetBestProxy env w = (Inr (Some p), w1) \<and> p \<in> set proxies))"
proof (intro impI conjI allI)
  assume ne: "proxies \<noteq> []"
  have e: "\<exists>p. best f proxies = Inr (Some p) \<and> p \<in> set proxies" for f
  proof -
    from bestLoop_nonempty [OF ne, of f]
    obtain k where k: "bestLoop f proxies 0 None (- 1) = Some k" "k < length proxies"
      by blast
    then have "best f proxies = Inr (Some (proxies ! k))"
      using ne by (simp add: best_def)
    moreover have "proxies ! k \<in> set proxies" using k(2) by simp
    ultimately show ?thesis by blast
  qed
  show "\<exists>p. best sc proxies = Inr (Some p) \<and> p \<in> set proxies" by (rule e)
  from ne obtain p rest where ps: "proxies = p # rest" by (cases proxies) auto
  show "bestLoop sc proxies 0 None (- 1)
         = bestLoop sc (tl proxies) 1 (Some 0) (sc (hd proxies))"
    unfolding ps by simp
  fix env w w1
  assume "GetProxies env w = (Inr proxies, w1)"
  then have "GetBestProxy env w = (best score proxies, w1)"
    by (simp add: GetBestProxy_def)
  with e [of score]
  show "\<exists>p. GetBestProxy env w = (Inr (Some p), w1) \<and> p \<in> set proxies"
    by auto
qed

theorem best_returns_element_witness:
  "[mirror ''a'' 2000 0, mirror ''b'' 3000 0] \<noteq> []
   \<and> score (mirror ''a'' 2000 0) < 0 \<and> score (mirror ''b'' 3000 0) < 0
   \<and> (\<exists>p. best score [mirror ''a'' 2000 0, mirror ''b'' 3000 0] = Inr (Some p)
         \<and> p \<in> set [mirror ''a'' 2000 0, mirror ''b'' 3000 0])"
proof (intro conjI)
  show ne: "[mirror ''a'' 2000 0, mirror ''b'' 3000 0] \<noteq> []" by simp
  show "score (mirror ''a'' 2000 0) < 0" by (simp add: score_def mirror_def)
  show "score (mirror ''b'' 3000 0) < 0" by (simp add: score_def mirror_def)
  from best_returns_element [of "[mirror ''a'' 2000 0, mirror ''b'' 3000 0]" score] ne
  show "\<exists>p. best score [mirror ''a'' 2000 0, mirror ''b'' 3000 0] = Inr (Some p)
         \<and> p \<in> set [mirror ''a'' 2000 0, mirror ''b'' 3000 0]"
    by blast
qed

text \<open>
  C3. On the two records with speed 0 and latencies 2000 ms and 3000 ms, in this order,
  the selection returns the second record, although its score, \<open>-0.8\<close>, is smaller than
  the score \<open>-0.4\<close> of the first: while \<open>bestScore\<close> is negative the guard
  \<open>bestScore < 0\<close> accepts every record, so the last one wins, not the best one. (In
  \<open>float64\<close> the two scores are the rounded \<open>0.4\<close>, negated, and its double: every other
  step of the formula is exact on these inputs, so the order is the same.) Where no
  score is negative the selection does return the first record of greatest score
  (\<open>best_nonnegative_scores\<close>).
\<close>

theorem best_negative_scores:
  "best score [mirror ''a'' 2000 0, mirror ''b'' 3000 0] = Inr (Some (mirror ''b'' 3000 0))
   \<and> score (mirror ''b'' 3000 0) < score (mirror ''a'' 2000 0)
   \<and> score (mirror ''a'' 2000 0) = - 0.4 \<and> score (mirror ''b'' 3000 0) = - 0.8"
  by (simp add: best_def score_def mirror_def)

section \<open>Claims about the downloader\<close>

text \<open>
  C1. With the attempt ceiling of ten, for the manifest (\<open>downloadUpdateJSON\<close>) and for a
  payload whose URL carries no mirror prefix (\<open>downloadModule\<close>, once the download
  directory exists) the log of attempts reads: one direct attempt at the URL, whose
  outcome is the answer of the environment to that request; if it succeeds, nothing more,
  and its body (parsed, for the manifest) or the path of the file now holding its body is
  returned. If it fails and the mirror list is obtained and sorted, the attempts that
  follow go to the mirrors of the sorted list in order, one after the other, at most ten
  of them; the outcome of each is the answer of the environment to the request for that
  mirror's URL at its turn; every attempt but the last has failed; either the last one
  succeeded, and its body or path is returned, or all failed, the first ten mirrors (or
  all, if fewer) were tried, and the result is the aggregate error, with no data. A
  sorted list is a rearrangement of the mirror list in which no mirror comes before a
  faster one; the order of mirrors of equal speed is the library's choice.
\<close>

theorem fallback_sequence:
  assumes "maxRetry md = 10"
  shows
    "fst (downloadWithTimeout env (buildUpdateURL repo) w)
       = httpOutcome (http env (tick w) (buildUpdateURL repo))
     \<and> (\<forall>data w1. downloadWithTimeout env (buildUpdateURL repo) w = (Inr data, w1) \<longrightarrow>
        downloadUpdateJSON env md repo w = (parseUpdateJSON env data, w1)
        \<and> fetches w1 = fetches w @ [(buildUpdateURL repo, Inr data)])
     \<and> (\<forall>e w1 proxies w2.
          downloadWithTimeout env (buildUpdateURL repo) w = (Inl e, w1)
          \<and> GetProxies env w1 = (Inr proxies, w2)
          \<and> sortedBySpeed proxies (sortSlice env proxies) \<longrightarrow>
          (\<exists>outs. length outs \<le> 10 \<and> length outs \<le> length proxies
            \<and> (\<forall>i < length outs. sortSlice env proxies ! i \<in> set proxies
                  \<and> outs ! i = httpOutcome (http env (tick w2 + i)
                                  (proxyURL (sortSlice env proxies ! i) (buildUpdateURL repo))))
            \<and> fetches (snd (downloadUpdateJSON env md repo w))
                = fetches w @ (buildUpdateURL repo, Inl e)
                    # zip (map (\<lambda>p. proxyURL p (buildUpdateURL repo)) (sortSlice env proxies)) outs
            \<and> (\<forall>out \<in> set (butlast outs). isl out)
            \<and> ((outs \<noteq> [] \<and> (\<exists>data. last outs = Inr data
                   \<and> fst (downloadUpdateJSON env md repo w) = parseUpdateJSON env data))
               \<or> ((\<forall>out \<in> set outs. isl out) \<and> length outs = min 10 (length proxies)
                   \<and> fst (downloadUpdateJSON env md repo w) = Inl AllAttemptsFailed))))
     \<and> (\<not> mkdir_download_fails env (tick w) (cacheDir md)
          \<and> extractGitHubURL (ZipURL ui) = ZipURL ui \<longrightarrow>
        fst (downloadFile env (ZipURL ui) (localPathOf env md ui) (emit MkdirDownload w))
          = fileOutcome env (Suc (tick w)) (ZipURL ui) (localPathOf env md ui)
        \<and> (\<forall>body w1.
           downloadFile env (ZipURL ui) (localPathOf env md ui) (emit MkdirDownload w)
             = (Inr body, w1) \<longrightarrow>
           downloadModule env md ui w = (Inr (localPathOf env md ui), w1)
           \<and> fileFetches w1 = fileFetches w @ [(ZipURL ui, Inr body)]
           \<and> files w1 (localPathOf env md ui) = Some body)
        \<and> (\<forall>e w1 proxies w2.
             downloadFile env (ZipURL ui) (localPathOf env md ui) (emit MkdirDownload w)
               = (Inl e, w1)
             \<and> GetProxies env w1 = (Inr proxies, w2)
             \<and> sortedBySpeed proxies (sortSlice env proxies) \<longrightarrow>
             (\<exists>outs. length outs \<le> 10 \<and> length outs \<le> length proxies
               \<and> (\<forall>i < length outs. sortSlice env proxies ! i \<in> set proxies
                     \<and> outs ! i = fileOutcome env (tick w2 + i)
                                     (proxyURL (sortSlice env proxies ! i) (ZipURL ui))
                                     (localPathOf env md ui))
               \<and> fileFetches (snd (downloadModule env md ui w))
                   = fileFetches w @ (ZipURL ui, Inl e) #
                       zip (map (\<lambda>p. proxyURL p (ZipURL ui)) (sortSlice env proxies)) outs
               \<and> (\<forall>out \<in> set (butlast outs). isl out)
               \<and> ((outs \<noteq> [] \<and> (\<exists>body. last outs = Inr body
                      \<and> fst (downloadModule env md ui w) = Inr (localPathOf env md ui)
                      \<and> files (snd (downloadModule env md ui w)) (localPathOf env md ui)
                          = Some body))
                  \<or> ((\<forall>out \<in> set outs. isl out) \<and> length outs = min 10 (length proxies)
                      \<and> fst (downloadModule env md ui w) = Inl AllProxyAttemptsFailed)))))
     \<and> (\<forall>proxies ranked. sortedBySpeed proxies ranked \<longrightarrow>
          mset ranked = mset proxies
          \<and> (\<forall>i j. i \<le> j \<and> j < length proxies \<longrightarrow>
                Speed (ranked ! j) \<le> Speed (ranked ! i)))"
proof (intro conjI allI impI)
  show "fst (downloadWithTimeout env (buildUpdateURL repo) w)
       = httpOutcome (http env (tick w) (buildUpdateURL repo))"
    by (simp add: downloadWithTimeout_eq)
next
  fix proxies ranked
  assume s: "sortedBySpeed proxies ranked"
  then show "mset ranked = mset proxies"
    by (simp add: sortedBySpeed_def)
  fix i j
  assume "i \<le> j \<and> j < length proxies"
  then have "i \<le> j" "j < length ranked"
    by (simp_all add: sortedBySpeed_length [OF s])
  then show "Speed (ranked ! j) \<le> Speed (ranked ! i)"
    by (rule sortedBySpeed_nth [OF s])
next
  fix data w1
  assume d: "downloadWithTimeout env (buildUpdateURL repo) w = (Inr data, w1)"
  show "downloadUpdateJSON env md repo w = (parseUpdateJSON env data, w1)"
    by (rule downloadUpdateJSON_direct [OF d])
  show "fetches w1 = fetches w @ [(buildUpdateURL repo, Inr data)]"
    by (rule downloadWithTimeout_fetches [OF d])
next
  fix e w1 proxies w2
  assume h: "downloadWithTimeout env (buildUpdateURL repo) w = (Inl e, w1)
          \<and> GetProxies env w1 = (Inr proxies, w2)
          \<and> sortedBySpeed proxies (sortSlice env proxies)"
  show "\<exists>outs. length outs \<le> 10 \<and> length outs \<le> length proxies
            \<and> (\<forall>i < length outs. sortSlice env proxies ! i \<in> set proxies
                  \<and> outs ! i = httpOutcome (http env (tick w2 + i)
                                  (proxyURL (sortSlice env proxies ! i) (buildUpdateURL repo))))
            \<and> fetches (snd (downloadUpdateJSON env md repo w))
                = fetches w @ (buildUpdateURL repo, Inl e)
                    # zip (map (\<lambda>p. proxyURL p (buildUpdateURL repo)) (sortSlice env proxies)) outs
            \<and> (\<forall>out \<in> set (butlast outs). isl out)
            \<and> ((outs \<noteq> [] \<and> (\<exists>data. last outs = Inr data
                   \<and> fst (downloadUpdateJSON env md repo w) = parseUpdateJSON env data))
               \<or> ((\<forall>out \<in> set outs. isl out) \<and> length outs = min 10 (length proxies)
                   \<and> fst (downloadUpdateJSON env md repo w) = Inl AllAttemptsFailed))"
    by (rule manifest_fallback [OF assms h [THEN conjunct1] h [THEN conjunct2, THEN conjunct1]
          h [THEN conjunct2, THEN conjunct2]])
next
  assume k: "\<not> mkdir_download_fails env (tick w) (cacheDir md)
          \<and> extractGitHubURL (ZipURL ui) = ZipURL ui"
  show "fst (downloadFile env (ZipURL ui) (localPathOf env md ui) (emit MkdirDownload w))
          = fileOutcome env (Suc (tick w)) (ZipURL ui) (localPathOf env md ui)"
    by (simp add: downloadFile_outcome tick_emit)
next
  fix body w1
  assume k: "\<not> mkdir_download_fails env (tick w) (cacheDir md)
          \<and> extractGitHubURL (ZipURL ui) = ZipURL ui"
    and d: "downloadFile env (ZipURL ui) (localPathOf env md ui) (emit MkdirDownload w)
             = (Inr body, w1)"
  show "downloadModule env md ui w = (Inr (localPathOf env md ui), w1)"
    by (rule downloadModule_direct [OF k [THEN conjunct1] d])
  show "fileFetches w1 = fileFetches w @ [(ZipURL ui, Inr body)]"
    using downloadFile_fileFetches [OF d] by (simp add: fileFetches_MkdirDownload)
  show "files w1 (localPathOf env md ui) = Some body"
    by (rule downloadFile_success [OF d])
next
  fix e w1 proxies w2
  assume k: "\<not> mkdir_download_fails env (tick w) (cacheDir md)
          \<and> extractGitHubURL (ZipURL ui) = ZipURL ui"
    and h: "downloadFile env (ZipURL ui) (localPathOf env md ui) (emit MkdirDownload w)
               = (Inl e, w1)
             \<and> GetProxies env w1 = (Inr proxies, w2)
             \<and> sortedBySpeed proxies (sortSlice env proxies)"
  show "\<exists>outs. length outs \<le> 10 \<and> length outs \<le> length proxies
               \<and> (\<forall>i < length outs. sortSlice env proxies ! i \<in> set proxies
                     \<and> outs ! i = fileOutcome env (tick w2 + i)
                                     (proxyURL (sortSlice env proxies ! i) (ZipURL ui))
                                     (localPathOf env md ui))
               \<and> fileFetches (snd (downloadModule env md ui w))
                   = fileFetches w @ (ZipURL ui, Inl e) #
                       zip (map (\<lambda>p. proxyURL p (ZipURL ui)) (sortSlice env proxies)) outs
               \<and> (\<forall>out \<in> set (butlast outs). isl out)
               \<and> ((outs \<noteq> [] \<and> (\<exists>body. last outs = Inr body
                      \<and> fst (downloadModule env md ui w) = Inr (localPathOf env md ui)
                      \<and> files (snd (downloadModule env md ui w)) (localPathOf env md ui)
                          = Some body))
                  \<or> ((\<forall>out \<in> set outs. isl out) \<and> length outs = min 10 (length proxies)
                      \<and> fst (downloadModule env md ui w) = Inl AllProxyAttemptsFailed))"
    by (rule payload_fallback [OF assms k [THEN conjunct1] k [THEN conjunct2]
          h [THEN conjunct1] h [THEN conjunct2, THEN conjunct1]
          h [THEN conjunct2, THEN conjunct2]])
qed

theorem fallback_sequence_witness:
  "maxRetry (NewModuleDownloader ''d'') = 10
   \<and> downloadWithTimeout (fourthEnv 3) (buildUpdateURL ''a/b'') cachedWorld
       = (Inl TransportError,
          emit (Fetch (buildUpdateURL ''a/b'') (Inl TransportError)) cachedWorld)
   \<and> GetProxies (fourthEnv 3)
         (emit (Fetch (buildUpdateURL ''a/b'') (Inl TransportError)) cachedWorld)
       = (Inr fourMirrors,
          emit (Fetch (buildUpdateURL ''a/b'') (Inl TransportError)) cachedWorld)
   \<and> sortedBySpeed fourMirrors (sortSlice (fourthEnv 3) fourMirrors)
   \<and> (\<exists>outs. length outs \<le> 10
         \<and> (\<forall>i < length outs.
               outs ! i = httpOutcome (http (fourthEnv 3) (Suc i)
                            (proxyURL (sortSlice (fourthEnv 3) fourMirrors ! i)
                               (buildUpdateURL ''a/b''))))
         \<and> fetches (snd (downloadUpdateJSON (fourthEnv 3) (NewModuleDownloader ''d'') ''a/b''
               cachedWorld))
             = fetches cachedWorld @ (buildUpdateURL ''a/b'', Inl TransportError)
                 # zip (map (\<lambda>p. proxyURL p (buildUpdateURL ''a/b''))
                          (sortSlice (fourthEnv 3) fourMirrors))
                     outs)
   \<and> fetches (snd (downloadUpdateJSON (fourthEnv 3) (NewModuleDownloader ''d'') ''a/b''
         cachedWorld))
       = [(buildUpdateURL ''a/b'', Inl TransportError),
          (''m1/'' @ buildUpdateURL ''a/b'', Inl TransportError),
          (''m2/'' @ buildUpdateURL ''a/b'', Inl TransportError),
          (''m3/'' @ buildUpdateURL ''a/b'', Inr ''z'')]
   \<and> fst (downloadUpdateJSON (fourthEnv 3) (NewModuleDownloader ''d'') ''a/b'' cachedWorld)
       = Inr plainInfo
   \<and> \<not> mkdir_download_fails (fourthEnv 4) (tick cachedWorld)
         (cacheDir (NewModuleDownloader ''d''))
   \<and> extractGitHubURL (ZipURL plainInfo) = ZipURL plainInfo
   \<and> sortedBySpeed fourMirrors (sortSlice (fourthEnv 4) fourMirrors)
   \<and> (\<exists>outs. length outs \<le> 10
         \<and> (\<forall>i < length outs.
               outs ! i = fileOutcome (fourthEnv 4) (Suc (Suc i))
                            (proxyURL (sortSlice (fourthEnv 4) fourMirrors ! i) (ZipURL plainInfo))
                            (localPathOf (fourthEnv 4) (NewModuleDownloader ''d'') plainInfo))
         \<and> fileFetches (snd (downloadModule (fourthEnv 4) (NewModuleDownloader ''d'') plainInfo
               cachedWorld))
             = fileFetches cachedWorld @ (ZipURL plainInfo, Inl TransportError)
                 # zip (map (\<lambda>p. proxyURL p (ZipURL plainInfo))
                          (sortSlice (fourthEnv 4) fourMirrors)) outs)
   \<and> fileFetches (snd (downloadModule (fourthEnv 4) (NewModuleDownloader ''d'') plainInfo
         cachedWorld))
       = [(''u'', Inl TransportError), (''m1/u'', Inl TransportError),
          (''m2/u'', Inl TransportError), (''m3/u'', Inr ''z'')]
   \<and> fst (downloadModule (fourthEnv 4) (NewModuleDownloader ''d'') plainInfo cachedWorld)
       = Inr (localPathOf (fourthEnv 4) (NewModuleDownloader ''d'') plainInfo)
   \<and> files (snd (downloadModule (fourthEnv 4) (NewModuleDownloader ''d'') plainInfo cachedWorld))
         (localPathOf (fourthEnv 4) (NewModuleDownloader ''d'') plainInfo)
       = Some ''z''"
proof (intro conjI)
  let ?md = "NewModuleDownloader ''d''"
  let ?u = "buildUpdateURL ''a/b''"
  let ?w1 = "emit (Fetch ?u (Inl TransportError)) cachedWorld"
  show M: "maxRetry ?md = 10" by (rule sample_maxRetry)
  show d: "downloadWithTimeout (fourthEnv 3) ?u cachedWorld = (Inl TransportError, ?w1)"
    by (rule sample_direct_fails)
  show g: "GetProxies (fourthEnv 3) ?w1 = (Inr fourMirrors, ?w1)"
    by (rule sample_mirrors)
  show s: "sortedBySpeed fourMirrors (sortSlice (fourthEnv 3) fourMirrors)"
    by (rule sample_sortedBySpeed)
  have t1: "tick ?w1 = Suc 0"
    by (simp add: tick_def emit_def cachedWorld_def freshWorld_def)
  note t = fallback_sequence [OF M, of "fourthEnv 3" "''a/b''" cachedWorld plainInfo,
      THEN conjunct2, THEN conjunct2, THEN conjunct1, rule_format,
      OF conjI [OF d conjI [OF g s]]]
  then show "\<exists>outs. length outs \<le> 10
         \<and> (\<forall>i < length outs.
               outs ! i = httpOutcome (http (fourthEnv 3) (Suc i)
                            (proxyURL (sortSlice (fourthEnv 3) fourMirrors ! i) ?u)))
         \<and> fetches (snd (downloadUpdateJSON (fourthEnv 3) ?md ''a/b'' cachedWorld))
             = fetches cachedWorld @ (?u, Inl TransportError)
                 # zip (map (\<lambda>p. proxyURL p ?u) (sortSlice (fourthEnv 3) fourMirrors)) outs"
    unfolding t1 by auto
  show "fetches (snd (downloadUpdateJSON (fourthEnv 3) ?md ''a/b'' cachedWorld))
       = [(?u, Inl TransportError), (''m1/'' @ ?u, Inl TransportError),
          (''m2/'' @ ?u, Inl TransportError), (''m3/'' @ ?u, Inr ''z'')]"
    by (rule sample_manifest_run)
  show "fst (downloadUpdateJSON (fourthEnv 3) ?md ''a/b'' cachedWorld) = Inr plainInfo"
    by (rule sample_manifest_result)
  show k: "\<not> mkdir_download_fails (fourthEnv 4) (tick cachedWorld) (cacheDir ?md)"
    by (rule sample_mkdir)
  show c: "extractGitHubURL (ZipURL plainInfo) = ZipURL plainInfo"
    by (rule sample_plain)
  show s2: "sortedBySpeed fourMirrors (sortSlice (fourthEnv 4) fourMirrors)"
    by (rule sample_sortedBySpeed)
  let ?path = "localPathOf (fourthEnv 4) ?md plainInfo"
  let ?v1 = "emit (FetchFile (ZipURL plainInfo) ?path (Inl TransportError))
      (emit MkdirDownload cachedWorld)"
  have d2: "downloadFile (fourthEnv 4) (ZipURL plainInfo) ?path (emit MkdirDownload cachedWorld)
      = (Inl TransportError, ?v1)"
    by (rule sample_file_fails4)
  have g2: "GetProxies (fourthEnv 4) ?v1 = (Inr fourMirrors, ?v1)"
    by (rule sample_mirrors2)
  have t2: "tick ?v1 = Suc (Suc 0)"
    by (simp add: tick_def emit_def cachedWorld_def freshWorld_def)
  note p = fallback_sequence [OF M, of "fourthEnv 4" "''a/b''" cachedWorld plainInfo,
      THEN conjunct2, THEN conjunct2, THEN conjunct2, THEN conjunct1, THEN mp,
      OF conjI [OF k c], THEN conjunct2, THEN conjunct2,
      rule_format, OF conjI [OF d2 conjI [OF g2 s2]]]
  then show "\<exists>outs. length outs \<le> 10
         \<and> (\<forall>i < length outs.
               outs ! i = fileOutcome (fourthEnv 4) (Suc (Suc i))
                            (proxyURL (sortSlice (fourthEnv 4) fourMirrors ! i) (ZipURL plainInfo))
                            ?path)
         \<and> fileFetches (snd (downloadModule (fourthEnv 4) ?md plainInfo cachedWorld))
             = fileFetches cachedWorld @ (ZipURL plainInfo, Inl TransportError)
                 # zip (map (\<lambda>p. proxyURL p (ZipURL plainInfo))
                          (sortSlice (fourthEnv 4) fourMirrors)) outs"
    unfolding t2 by auto
  show "fileFetches (snd (downloadModule (fourthEnv 4) ?md plainInfo cachedWorld))
       = [(''u'', Inl TransportError), (''m1/u'', Inl TransportError),
          (''m2/u'', Inl TransportError), (''m3/u'', Inr ''z'')]"
    by (rule sample_payload_run [THEN conjunct1])
  show "fst (downloadModule (fourthEnv 4) ?md plainInfo cachedWorld) = Inr ?path"
    by (rule sample_payload_run [THEN conjunct2, THEN conjunct1])
  show "files (snd (downloadModule (fourthEnv 4) ?md plainInfo cachedWorld)) ?path = Some ''z''"
    by (rule sample_payload_run [THEN conjunct2, THEN conjunct2])
qed

text \<open>
  C4, as stated, fails. The payload URL of \<open>wrappedInfo\<close> is the origin URL \<open>u\<close> behind the
  known prefix \<open>https://ghproxy.cc/\<close>. When the first request succeeds, the only request
  made is the one to the prefixed URL, through the mirror, and the origin is never
  contacted; when every request fails, the prefixed URL is still the first one tried and
  the origin comes second, before the mirrors of the catalog.
\<close>

theorem payload_origin_not_first:
  "ZipURL wrappedInfo = ''https://ghproxy.cc/'' @ ''u''
   \<and> extractGitHubURL (ZipURL wrappedInfo) = ''u''
   \<and> fileFetches (snd (downloadModule (fourthEnv 1) (NewModuleDownloader ''d'') wrappedInfo
         cachedWorld))
       = [(ZipURL wrappedInfo, Inr ''z'')]
   \<and> map fst (fileFetches (snd (downloadModule (fourthEnv 99) (NewModuleDownloader ''d'')
         wrappedInfo cachedWorld)))
       = [ZipURL wrappedInfo, ''u'', ''m1/u'', ''m2/u'', ''m3/u'', ''m4/u'']"
proof (intro conjI)
  show "ZipURL wrappedInfo = ''https://ghproxy.cc/'' @ ''u''"
    by (simp add: wrappedInfo_def)
  show "extractGitHubURL (ZipURL wrappedInfo) = ''u''"
    by (rule sample_wrapped)
  show "fileFetches (snd (downloadModule (fourthEnv 1) (NewModuleDownloader ''d'') wrappedInfo
         cachedWorld))
       = [(ZipURL wrappedInfo, Inr ''z'')]"
    unfolding sample_wrapped_success
    by (simp add: fileFetches_def emit_def cachedWorld_def freshWorld_def)
  show "map fst (fileFetches (snd (downloadModule (fourthEnv 99) (NewModuleDownloader ''d'')
         wrappedInfo cachedWorld)))
       = [ZipURL wrappedInfo, ''u'', ''m1/u'', ''m2/u'', ''m3/u'', ''m4/u'']"
    by (rule sample_wrapped_all_fail)
qed

text \<open>
  C4, amended. Once the download directory exists, the first attempt of \<open>downloadModule\<close>
  goes to the payload URL exactly as the manifest gives it, prefix included, and its
  outcome is the answer of the environment to that request. If it succeeds, nothing else
  is tried and the path of the file holding its body is returned. Only if it fails is the
  URL canonicalized. When a known prefix was stripped, the next attempt goes directly to
  the stripped URL, and nothing follows if that succeeds. After these direct attempts
  have failed and the catalog is obtained and sorted, the attempts that follow go to the
  mirrors of the sorted catalog in order, at most ten of them, each at that mirror's URL
  wrapped around the stripped URL (for a URL without a known prefix, the URL itself),
  never around the prefixed one; the outcome of each is the answer of the environment at
  its turn, every attempt but the last has failed, and either the last succeeded and the
  path is returned, or all failed and the result is the aggregate error.
\<close>

theorem payload_attempt_order:
  assumes "maxRetry md = 10"
    and "\<not> mkdir_download_fails env (tick w) (cacheDir md)"
    and "downloadFile env (ZipURL ui) (localPathOf env md ui) (emit MkdirDownload w) = (r1, w1)"
    and "downloadFile env (extractGitHubURL (ZipURL ui)) (localPathOf env md ui) w1 = (r2, w2)"
  shows
    "r1 = fileOutcome env (Suc (tick w)) (ZipURL ui) (localPathOf env md ui)
     \<and> (\<forall>body. r1 = Inr body \<longrightarrow>
          downloadModule env md ui w = (Inr (localPathOf env md ui), w1)
          \<and> fileFetches w1 = fileFetches w @ [(ZipURL ui, Inr body)]
          \<and> files w1 (localPathOf env md ui) = Some body)
     \<and> (\<forall>e proxies w3.
          r1 = Inl e \<and> extractGitHubURL (ZipURL ui) = ZipURL ui
          \<and> GetProxies env w1 = (Inr proxies, w3)
          \<and> sortedBySpeed proxies (sortSlice env proxies) \<longrightarrow>
          (\<exists>outs. length outs \<le> 10 \<and> length outs \<le> length proxies
               \<and> (\<forall>i < length outs. sortSlice env proxies ! i \<in> set proxies
                     \<and> outs ! i = fileOutcome env (tick w3 + i)
                                     (proxyURL (sortSlice env proxies ! i) (extractGitHubURL (ZipURL ui)))
                                     (localPathOf env md ui))
               \<and> fileFetches (snd (downloadModule env md ui w))
                   = fileFetches w @ (ZipURL ui, Inl e) #
                       zip (map (\<lambda>p. proxyURL p (extractGitHubURL (ZipURL ui))) (sortSlice env proxies)) outs
               \<and> (\<forall>out \<in> set (butlast outs). isl out)
               \<and> ((outs \<noteq> [] \<and> (\<exists>body. last outs = Inr body
                      \<and> fst (downloadModule env md ui w) = Inr (localPathOf env md ui)
                      \<and> files (snd (downloadModule env md ui w)) (localPathOf env md ui)
                          = Some body))
                  \<or> ((\<forall>out \<in> set outs. isl out) \<and> length outs = min 10 (length proxies)
                      \<and> fst (downloadModule env md ui w) = Inl AllProxyAttemptsFailed))))
     \<and> (\<forall>e. r1 = Inl e \<and> extractGitHubURL (ZipURL ui) \<noteq> ZipURL ui \<longrightarrow>
          r2 = fileOutcome env (Suc (Suc (tick w))) (extractGitHubURL (ZipURL ui))
                 (localPathOf env md ui)
          \<and> (\<forall>body. r2 = Inr body \<longrightarrow>
               downloadModule env md ui w = (Inr (localPathOf env md ui), w2)
               \<and> fileFetches w2
                   = fileFetches w @ [(ZipURL ui, Inl e), (extractGitHubURL (ZipURL ui), Inr body)]
               \<and> files w2 (localPathOf env md ui) = Some body)
          \<and> (\<forall>e2 proxies w3.
               r2 = Inl e2 \<and> GetProxies env w2 = (Inr proxies, w3)
               \<and> sortedBySpeed proxies (sortSlice env proxies) \<longrightarrow>
               (\<exists>outs. length outs \<le> 10 \<and> length outs \<le> length proxies
               \<and> (\<forall>i < length outs. sortSlice env proxies ! i \<in> set proxies
                     \<and> outs ! i = fileOutcome env (tick w3 + i)
                                     (proxyURL (sortSlice env proxies ! i) (extractGitHubURL (ZipURL ui)))
                                     (localPathOf env md ui))
               \<and> fileFetches (snd (downloadModule env md ui w))
                   = fileFetches w @ (ZipURL ui, Inl e) # (extractGitHubURL (ZipURL ui), Inl e2) #
                       zip (map (\<lambda>p. proxyURL p (extractGitHubURL (ZipURL ui))) (sortSlice env proxies)) outs
               \<and> (\<forall>out \<in> set (butlast outs). isl out)
               \<and> ((outs \<noteq> [] \<and> (\<exists>body. last outs = Inr body
                      \<and> fst (downloadModule env md ui w) = Inr (localPathOf env md ui)
                      \<and> files (snd (downloadModule env md ui w)) (localPathOf env md ui)
                          = Some body))
                  \<or> ((\<forall>out \<in> set outs. isl out) \<and> length outs = min 10 (length proxies)
                      \<and> fst (downloadModule env md ui w) = Inl AllProxyAttemptsFailed)))))"
proof (intro conjI allI impI)
  note M = assms(1) and k = assms(2) and d1 = assms(3) and d2 = assms(4)
  have t1: "tick w1 = Suc (Suc (tick w))"
    using downloadFile_tick [OF d1] by (simp add: tick_emit)
  show "r1 = fileOutcome env (Suc (tick w)) (ZipURL ui) (localPathOf env md ui)"
    using downloadFile_outcome [of env "ZipURL ui" "localPathOf env md ui" "emit MkdirDownload w"]
    by (simp add: d1 tick_emit)
  {
    fix body
    assume r: "r1 = Inr body"
    note d = d1 [unfolded r]
    show "downloadModule env md ui w = (Inr (localPathOf env md ui), w1)"
      by (rule downloadModule_direct [OF k d])
    show "fileFetches w1 = fileFetches w @ [(ZipURL ui, Inr body)]"
      using downloadFile_fileFetches [OF d] by (simp add: fileFetches_MkdirDownload)
    show "files w1 (localPathOf env md ui) = Some body"
      by (rule downloadFile_success [OF d])
  }
  {
    fix e proxies w3
    assume h: "r1 = Inl e \<and> extractGitHubURL (ZipURL ui) = ZipURL ui
          \<and> GetProxies env w1 = (Inr proxies, w3)
          \<and> sortedBySpeed proxies (sortSlice env proxies)"
    then have r: "r1 = Inl e" and c: "extractGitHubURL (ZipURL ui) = ZipURL ui"
      and g: "GetProxies env w1 = (Inr proxies, w3)"
      and s: "sortedBySpeed proxies (sortSlice env proxies)"
      by blast+
    show "\<exists>outs. length outs \<le> 10 \<and> length outs \<le> length proxies
               \<and> (\<forall>i < length outs. sortSlice env proxies ! i \<in> set proxies
                     \<and> outs ! i = fileOutcome env (tick w3 + i)
                                     (proxyURL (sortSlice env proxies ! i) (extractGitHubURL (ZipURL ui)))
                                     (localPathOf env md ui))
               \<and> fileFetches (snd (downloadModule env md ui w))
                   = fileFetches w @ (ZipURL ui, Inl e) #
                       zip (map (\<lambda>p. proxyURL p (extractGitHubURL (ZipURL ui))) (sortSlice env proxies)) outs
               \<and> (\<forall>out \<in> set (butlast outs). isl out)
               \<and> ((outs \<noteq> [] \<and> (\<exists>body. last outs = Inr body
                      \<and> fst (downloadModule env md ui w) = Inr (localPathOf env md ui)
                      \<and> files (snd (downloadModule env md ui w)) (localPathOf env md ui)
                          = Some body))
                  \<or> ((\<forall>out \<in> set outs. isl out) \<and> length outs = min 10 (length proxies)
                      \<and> fst (downloadModule env md ui w) = Inl AllProxyAttemptsFailed))"
      unfolding c by (rule payload_fallback [OF M k c d1 [unfolded r] g s])
  }
  {
    fix e
    assume h: "r1 = Inl e \<and> extractGitHubURL (ZipURL ui) \<noteq> ZipURL ui"
    show "r2 = fileOutcome env (Suc (Suc (tick w))) (extractGitHubURL (ZipURL ui))
                 (localPathOf env md ui)"
      using downloadFile_outcome [of env "extractGitHubURL (ZipURL ui)" "localPathOf env md ui" w1]
      by (simp add: d2 t1)
  }
  {
    fix e body
    assume h: "r1 = Inl e \<and> extractGitHubURL (ZipURL ui) \<noteq> ZipURL ui"
      and r: "r2 = Inr body"
    note da = d1 [unfolded h [THEN conjunct1]] and db = d2 [unfolded r]
    show "downloadModule env md ui w = (Inr (localPathOf env md ui), w2)"
      by (rule downloadModule_stripped_direct [OF k da h [THEN conjunct2] db])
    show "fileFetches w2
        = fileFetches w @ [(ZipURL ui, Inl e), (extractGitHubURL (ZipURL ui), Inr body)]"
      using downloadFile_fileFetches [OF da] downloadFile_fileFetches [OF db]
      by (simp add: fileFetches_MkdirDownload)
    show "files w2 (localPathOf env md ui) = Some body"
      by (rule downloadFile_success [OF db])
  }
  {
    fix e e2 proxies w3
    assume h: "r1 = Inl e \<and> extractGitHubURL (ZipURL ui) \<noteq> ZipURL ui"
      and h2: "r2 = Inl e2 \<and> GetProxies env w2 = (Inr proxies, w3)
               \<and> sortedBySpeed proxies (sortSlice env proxies)"
    from h2 have r: "r2 = Inl e2" and g: "GetProxies env w2 = (Inr proxies, w3)"
      and s: "sortedBySpeed proxies (sortSlice env proxies)"
      by blast+
    note da = d1 [unfolded h [THEN conjunct1]] and db = d2 [unfolded r]
    show "\<exists>outs. length outs \<le> 10 \<and> length outs \<le> length proxies
               \<and> (\<forall>i < length outs. sortSlice env proxies ! i \<in> set proxies
                     \<and> outs ! i = fileOutcome env (tick w3 + i)
                                     (proxyURL (sortSlice env proxies ! i) (extractGitHubURL (ZipURL ui)))
                                     (localPathOf env md ui))
               \<and> fileFetches (snd (downloadModule env md ui w))
                   = fileFetches w @ (ZipURL ui, Inl e) # (extractGitHubURL (ZipURL ui), Inl e2) #
                       zip (map (\<lambda>p. proxyURL p (extractGitHubURL (ZipURL ui))) (sortSlice env proxies)) outs
               \<and> (\<forall>out \<in> set (butlast outs). isl out)
               \<and> ((outs \<noteq> [] \<and> (\<exists>body. last outs = Inr body
                      \<and> fst (downloadModule env md ui w) = Inr (localPathOf env md ui)
                      \<and> files (snd (downloadModule env md ui w)) (localPathOf env md ui)
                          = Some body))
                  \<or> ((\<forall>out \<in> set outs. isl out) \<and> length outs = min 10 (length proxies)
                      \<and> fst (downloadModule env md ui w) = Inl AllProxyAttemptsFailed))"
      by (rule stripped_fallback [OF M k h [THEN conjunct2] da db g s])
  }
qed

theorem payload_attempt_order_witness:
  "maxRetry (NewModuleDownloader ''d'') = 10
   \<and> \<not> mkdir_download_fails (fourthEnv 4) (tick cachedWorld) (cacheDir (NewModuleDownloader ''d''))
   \<and> downloadFile (fourthEnv 4) (ZipURL wrappedInfo)
         (localPathOf (fourthEnv 4) (NewModuleDownloader ''d'') wrappedInfo)
         (emit MkdirDownload cachedWorld)
       = (Inl TransportError,
          emit (FetchFile (ZipURL wrappedInfo)
                 (localPathOf (fourthEnv 4) (NewModuleDownloader ''d'') wrappedInfo)
                 (Inl TransportError))
            (emit MkdirDownload cachedWorld))
   \<and> downloadFile (fourthEnv 4) (extractGitHubURL (ZipURL wrappedInfo))
         (localPathOf (fourthEnv 4) (NewModuleDownloader ''d'') wrappedInfo)
         (emit (FetchFile (ZipURL wrappedInfo)
                 (localPathOf (fourthEnv 4) (NewModuleDownloader ''d'') wrappedInfo)
                 (Inl TransportError))
            (emit MkdirDownload cachedWorld))
       = (Inl TransportError,
          emit (FetchFile (extractGitHubURL (ZipURL wrappedInfo))
                 (localPathOf (fourthEnv 4) (NewModuleDownloader ''d'') wrappedInfo)
                 (Inl TransportError))
            (emit (FetchFile (ZipURL wrappedInfo)
                    (localPathOf (fourthEnv 4) (NewModuleDownloader ''d'') wrappedInfo)
                    (Inl TransportError))
               (emit MkdirDownload cachedWorld)))
   \<and> extractGitHubURL (ZipURL wrappedInfo) \<noteq> ZipURL wrappedInfo
   \<and> extractGitHubURL (ZipURL wrappedInfo) = ''u''
   \<and> sortedBySpeed fourMirrors (sortSlice (fourthEnv 4) fourMirrors)
   \<and> (\<exists>outs. length outs \<le> 10
         \<and> (\<forall>i < length outs.
               outs ! i = fileOutcome (fourthEnv 4) (Suc (Suc (Suc i)))
                            (proxyURL (sortSlice (fourthEnv 4) fourMirrors ! i) ''u'')
                            (localPathOf (fourthEnv 4) (NewModuleDownloader ''d'') wrappedInfo))
         \<and> fileFetches (snd (downloadModule (fourthEnv 4) (NewModuleDownloader ''d'') wrappedInfo
               cachedWorld))
             = fileFetches cachedWorld @ (ZipURL wrappedInfo, Inl TransportError)
                 # (''u'', Inl TransportError)
                 # zip (map (\<lambda>p. proxyURL p ''u'') (sortSlice (fourthEnv 4) fourMirrors)) outs)
   \<and> fileFetches (snd (downloadModule (fourthEnv 4) (NewModuleDownloader ''d'') wrappedInfo
         cachedWorld))
       = [(ZipURL wrappedInfo, Inl TransportError), (''u'', Inl TransportError),
          (''m1/u'', Inl TransportError), (''m2/u'', Inr ''z'')]
   \<and> fst (downloadModule (fourthEnv 4) (NewModuleDownloader ''d'') wrappedInfo cachedWorld)
       = Inr (localPathOf (fourthEnv 4) (NewModuleDownloader ''d'') wrappedInfo)"
proof (intro conjI)
  let ?md = "NewModuleDownloader ''d''"
  let ?path = "localPathOf (fourthEnv 4) ?md wrappedInfo"
  let ?g = "extractGitHubURL (ZipURL wrappedInfo)"
  let ?w1 = "emit (FetchFile (ZipURL wrappedInfo) ?path (Inl TransportError))
      (emit MkdirDownload cachedWorld)"
  let ?w2 = "emit (FetchFile ?g ?path (Inl TransportError)) ?w1"
  show M: "maxRetry ?md = 10" by (rule sample_maxRetry)
  show k: "\<not> mkdir_download_fails (fourthEnv 4) (tick cachedWorld) (cacheDir ?md)"
    by (rule sample_mkdir)
  show d1: "downloadFile (fourthEnv 4) (ZipURL wrappedInfo) ?path (emit MkdirDownload cachedWorld)
       = (Inl TransportError, ?w1)"
    by (rule sample_file_fails4)
  show d2: "downloadFile (fourthEnv 4) ?g ?path ?w1 = (Inl TransportError, ?w2)"
    by (rule sample_second_fails4)
  show n: "?g \<noteq> ZipURL wrappedInfo"
    using sample_wrapped sample_wrapped_differs by simp
  show u: "?g = ''u''" by (rule sample_wrapped)
  show s: "sortedBySpeed fourMirrors (sortSlice (fourthEnv 4) fourMirrors)"
    by (rule sample_sortedBySpeed)
  have g: "GetProxies (fourthEnv 4) ?w2 = (Inr fourMirrors, ?w2)"
    by (rule sample_mirrors3)
  have t: "tick (emit e (emit e' (emit e'' cachedWorld))) = Suc (Suc (Suc 0))" for e e' e''
    by (simp add: tick_def emit_def cachedWorld_def freshWorld_def)
  note p = payload_attempt_order [OF M k d1 d2, THEN conjunct2, THEN conjunct2, THEN conjunct2,
      rule_format, OF conjI [OF refl n], THEN conjunct2, THEN conjunct2, rule_format,
      OF conjI [OF refl conjI [OF g s]]]
  then show "\<exists>outs. length outs \<le> 10
         \<and> (\<forall>i < length outs.
               outs ! i = fileOutcome (fourthEnv 4) (Suc (Suc (Suc i)))
                            (proxyURL (sortSlice (fourthEnv 4) fourMirrors ! i) ''u'') ?path)
         \<and> fileFetches (snd (downloadModule (fourthEnv 4) ?md wrappedInfo cachedWorld))
             = fileFetches cachedWorld @ (ZipURL wrappedInfo, Inl TransportError)
                 # (''u'', Inl TransportError)
                 # zip (map (\<lambda>p. proxyURL p ''u'') (sortSlice (fourthEnv 4) fourMirrors)) outs"
    unfolding t u by auto
  show "fileFetches (snd (downloadModule (fourthEnv 4) ?md wrappedInfo cachedWorld))
       = [(ZipURL wrappedInfo, Inl TransportError), (''u'', Inl TransportError),
          (''m1/u'', Inl TransportError), (''m2/u'', Inr ''z'')]"
    by (rule sample_wrapped_run [THEN conjunct1])
  show "fst (downloadModule (fourthEnv 4) ?md wrappedInfo cachedWorld) = Inr ?path"
    by (rule sample_wrapped_run [THEN conjunct2])
qed

text \<open>
  C6. A manifest body that does not decode, or that decodes to a manifest whose \<open>zipUrl\<close>
  is absent or empty (Go decodes both to the empty string), makes \<open>parseUpdateJSON\<close> fail.
  \<open>downloadUpdateJSON\<close> never returns a manifest with an empty \<open>zipUrl\<close>, and whenever it
  returns an error, \<open>handleGetCommand\<close> stops there: the log has no payload download
  attempt. In particular this is so when the direct request answers with a manifest
  without \<open>zipUrl\<close>.
\<close>

theorem missing_zipUrl_stops:
  "(unmarshalUpdate env data = None \<longrightarrow>
      parseUpdateJSON env data = Inl (UpdateJSONError JSONError))
   \<and> (\<forall>ui. unmarshalUpdate env data = Some ui \<and> ZipURL ui = [] \<longrightarrow>
         parseUpdateJSON env data = Inl NoZipUrl)
   \<and> (\<forall>ui w1. downloadUpdateJSON env md repo w = (Inr ui, w1) \<longrightarrow> ZipURL ui \<noteq> [])
   \<and> (\<forall>e w1. normalizeRepoName repoArg \<noteq> []
         \<and> downloadUpdateJSON env (NewModuleDownloader dir) (normalizeRepoName repoArg) w
             = (Inl e, w1) \<longrightarrow>
         handleGetCommand env dir repoArg w = (UpdateFailed e, w1)
         \<and> fileFetches w1 = fileFetches w)
   \<and> (\<forall>ui w1. normalizeRepoName repoArg \<noteq> []
         \<and> downloadWithTimeout env (buildUpdateURL (normalizeRepoName repoArg)) w = (Inr data, w1)
         \<and> unmarshalUpdate env data = Some ui \<and> ZipURL ui = [] \<longrightarrow>
         handleGetCommand env dir repoArg w = (UpdateFailed NoZipUrl, w1)
         \<and> fileFetches w1 = fileFetches w)"
proof (intro conjI allI impI)
  assume "unmarshalUpdate env data = None"
  then show "parseUpdateJSON env data = Inl (UpdateJSONError JSONError)"
    by (simp add: parseUpdateJSON_def)
next
  fix ui
  assume "unmarshalUpdate env data = Some ui \<and> ZipURL ui = []"
  then show "parseUpdateJSON env data = Inl NoZipUrl"
    by (simp add: parseUpdateJSON_def)
next
  fix ui w1
  assume "downloadUpdateJSON env md repo w = (Inr ui, w1)"
  then show "ZipURL ui \<noteq> []" by (rule downloadUpdateJSON_Inr)
next
  fix e w1
  assume h: "normalizeRepoName repoArg \<noteq> []
         \<and> downloadUpdateJSON env (NewModuleDownloader dir) (normalizeRepoName repoArg) w
             = (Inl e, w1)"
  show "handleGetCommand env dir repoArg w = (UpdateFailed e, w1)"
    by (rule handleGetCommand_update_failed [OF h [THEN conjunct1] h [THEN conjunct2]])
  from downloadUpdateJSON_fileFetches
    [of env "NewModuleDownloader dir" "normalizeRepoName repoArg" w] h
  show "fileFetches w1 = fileFetches w" by simp
next
  fix ui w1
  assume h: "normalizeRepoName repoArg \<noteq> []
         \<and> downloadWithTimeout env (buildUpdateURL (normalizeRepoName repoArg)) w = (Inr data, w1)
         \<and> unmarshalUpdate env data = Some ui \<and> ZipURL ui = []"
  then have p: "parseUpdateJSON env data = Inl NoZipUrl"
    by (simp add: parseUpdateJSON_def)
  from h have d: "downloadWithTimeout env (buildUpdateURL (normalizeRepoName repoArg)) w
      = (Inr data, w1)" by blast
  have u: "downloadUpdateJSON env (NewModuleDownloader dir) (normalizeRepoName repoArg) w
      = (Inl NoZipUrl, w1)"
    unfolding downloadUpdateJSON_direct [OF d] p ..
  show "handleGetCommand env dir repoArg w = (UpdateFailed NoZipUrl, w1)"
    by (rule handleGetCommand_update_failed [OF h [THEN conjunct1] u])
  show "fileFetches w1 = fileFetches w"
    by (rule downloadWithTimeout_fileFetches [OF d])
qed

theorem missing_zipUrl_stops_witness:
  "normalizeRepoName ''a/b'' \<noteq> []
   \<and> downloadWithTimeout noZipEnv (buildUpdateURL (normalizeRepoName ''a/b'')) freshWorld
       = (Inr ''j'', emit (Fetch (buildUpdateURL (normalizeRepoName ''a/b'')) (Inr ''j''))
            freshWorld)
   \<and> unmarshalUpdate noZipEnv ''j'' = Some noZipInfo \<and> ZipURL noZipInfo = []
   \<and> parseUpdateJSON noZipEnv ''j'' = Inl NoZipUrl
   \<and> handleGetCommand noZipEnv ''d'' ''a/b'' freshWorld
       = (UpdateFailed NoZipUrl,
          emit (Fetch (buildUpdateURL (normalizeRepoName ''a/b'')) (Inr ''j'')) freshWorld)
   \<and> fileFetches (emit (Fetch (buildUpdateURL (normalizeRepoName ''a/b'')) (Inr ''j''))
         freshWorld)
       = fileFetches freshWorld"
proof -
  let ?u = "buildUpdateURL (normalizeRepoName ''a/b'')"
  let ?w1 = "emit (Fetch ?u (Inr ''j'')) freshWorld"
  have n: "normalizeRepoName ''a/b'' \<noteq> []" by (simp add: sample_repo)
  have d: "downloadWithTimeout noZipEnv ?u freshWorld = (Inr ''j'', ?w1)"
    by (rule sample_manifest_without_zip)
  have j: "unmarshalUpdate noZipEnv ''j'' = Some noZipInfo"
    by (simp add: noZipEnv_def deadEnv_def)
  have z: "ZipURL noZipInfo = []" by (simp add: noZipInfo_def)
  note t = missing_zipUrl_stops [of noZipEnv "''j''" "NewModuleDownloader ''d''" "''a/b''"
      freshWorld "''a/b''" "''d''"]
  have p: "parseUpdateJSON noZipEnv ''j'' = Inl NoZipUrl"
    by (rule t [THEN conjunct2, THEN conjunct1, rule_format, OF conjI [OF j z]])
  note r = t [THEN conjunct2, THEN conjunct2, THEN conjunct2, THEN conjunct2, rule_format,
      OF conjI [OF n conjI [OF d conjI [OF j z]]]]
  from n d j z p r show ?thesis by blast
qed

end
